(* ===== verification/Http_Prelude.thy ===== *)
theory Http_Prelude
  imports Main "HOL-Library.Word"
begin

text \<open>
  The vocabulary shared by every component theory.
  \<^item> The machine types of the crate: bytes, \<open>u16\<close>, and \<open>usize\<close> as a natural
    number with the 64-bit limit written out in \<open>usize_add\<close> and \<open>usize_sub\<close>. Both take
    a flag \<open>oc\<close>: with overflow checks (the debug profile) an overflow panics, without
    them (the release profile) it wraps around.
  \<^item> Panics as values: \<open>outcome\<close> is the result of code that may panic, \<open>obind\<close> runs
    one piece of such code after another. A panic aborts what follows.
  \<^item> Errors and asynchrony: \<open>io_error\<close>, \<open>async\<close> (the two legacy poll answers).
  \<^item> The slice operations of the standard library the crate calls: \<open>windows(n).position\<close>,
    \<open>split\<close>, \<open>[..n]\<close>, \<open>[n..]\<close>, \<open>get\<close>.
\<close>

section \<open>Types\<close>

type_synonym byte = "8 word"
type_synonym bytes = "byte list"
type_synonym rstr = "byte list"
type_synonym u16 = "16 word"
type_synonym usize = nat

datatype panic = ArithOverflow | SliceIndex | UnwrapNone | PanicMsg string

datatype 'a outcome = Ret 'a | Panic panic

datatype io_kind = Other | InvalidInput | WouldBlock | OsError nat

datatype io_error = IoError io_kind string

datatype 'a async = NotReady | Ready 'a

type_synonym 'a io_result = "io_error + 'a"
type_synonym 'a io_poll = "io_error + 'a async"

abbreviation Ok :: "'a \<Rightarrow> 'e + 'a" where "Ok \<equiv> Inr"
abbreviation Err :: "'e \<Rightarrow> 'e + 'a" where "Err \<equiv> Inl"

section \<open>Panics\<close>

primrec obind :: "'a outcome \<Rightarrow> ('a \<Rightarrow> 'b outcome) \<Rightarrow> 'b outcome" where
  "obind (Ret x) f = f x"
| "obind (Panic p) f = Panic p"

primrec omap :: "('a \<Rightarrow> 'b) \<Rightarrow> 'a outcome \<Rightarrow> 'b outcome" where
  "omap f (Ret x) = Ret (f x)"
| "omap f (Panic p) = Panic p"

primrec is_panic :: "'a outcome \<Rightarrow> bool" where
  "is_panic (Ret x) = False"
| "is_panic (Panic p) = True"

text \<open>\<open>Option::unwrap\<close> and \<open>Option::expect\<close>.\<close>

primrec unwrap :: "panic \<Rightarrow> 'a option \<Rightarrow> 'a outcome" where
  "unwrap p None = Panic p"
| "unwrap p (Some x) = Ret x"

text \<open>The panic of \<open>Result::unwrap\<close> on an error, with the error's \<open>Debug\<close> text.\<close>

definition unwrap_failed :: "string \<Rightarrow> panic" where
  "unwrap_failed e = PanicMsg (''called `Result::unwrap()` on an `Err` value: '' @ e)"

section \<open>Fallible operations on an outside world\<close>

text \<open>\<open>m?; f(..)\<close> for operations that change a world \<open>'w\<close> and may fail.\<close>

definition io_bind ::
    "('w \<Rightarrow> 'a io_result \<times> 'w) \<Rightarrow> ('a \<Rightarrow> 'w \<Rightarrow> 'b io_result \<times> 'w) \<Rightarrow> 'w \<Rightarrow> 'b io_result \<times> 'w" where
  "io_bind m f w = (case m w of (Err e, w') \<Rightarrow> (Err e, w') | (Ok x, w') \<Rightarrow> f x w')"

definition io_ret :: "'a \<Rightarrow> 'w \<Rightarrow> 'a io_result \<times> 'w" where
  "io_ret x w = (Ok x, w)"

section \<open>Machine arithmetic\<close>

definition usize_size :: nat where
  "usize_size = 18446744073709551616"

definition usize_add :: "bool \<Rightarrow> usize \<Rightarrow> usize \<Rightarrow> usize outcome" where
  "usize_add oc a b =
     (if a + b < usize_size then Ret (a + b)
      else if oc then Panic ArithOverflow
      else Ret ((a + b) mod usize_size))"

definition usize_sub :: "bool \<Rightarrow> usize \<Rightarrow> usize \<Rightarrow> usize outcome" where
  "usize_sub oc a b =
     (if b \<le> a then Ret (a - b)
      else if oc then Panic ArithOverflow
      else Ret (a + usize_size - b))"

section \<open>Slices\<close>

definition slice_to :: "'a list \<Rightarrow> usize \<Rightarrow> 'a list outcome" where
  "slice_to xs n = (if n \<le> length xs then Ret (take n xs) else Panic SliceIndex)"

definition slice_from :: "'a list \<Rightarrow> usize \<Rightarrow> 'a list outcome" where
  "slice_from xs n = (if n \<le> length xs then Ret (drop n xs) else Panic SliceIndex)"

definition slice_get :: "'a list \<Rightarrow> usize \<Rightarrow> 'a option" where
  "slice_get xs n = (if n < length xs then Some (xs ! n) else None)"

text \<open>\<open>xs.windows(n).position(|w| w == pat)\<close> for a non-empty pattern of length \<open>n\<close>.\<close>

fun find_window :: "'a list \<Rightarrow> 'a list \<Rightarrow> nat option" where
  "find_window pat [] = None"
| "find_window pat (x # xs) =
     (if take (length pat) (x # xs) = pat then Some 0
      else map_option Suc (find_window pat xs))"

text \<open>\<open>xs.split(|x| p(x))\<close>: the pieces between the elements that satisfy \<open>p\<close>.\<close>

fun split_on :: "('a \<Rightarrow> bool) \<Rightarrow> 'a list \<Rightarrow> 'a list list" where
  "split_on p [] = [[]]"
| "split_on p (x # xs) =
     (if p x then [] # split_on p xs
      else (case split_on p xs of [] \<Rightarrow> [[x]] | y # ys \<Rightarrow> (x # y) # ys))"

section \<open>Byte literals\<close>

definition lit :: "string \<Rightarrow> bytes" where
  "lit s = map of_char s"

abbreviation SP :: byte where "SP \<equiv> 32"
abbreviation CR :: byte where "CR \<equiv> 13"
abbreviation LF :: byte where "LF \<equiv> 10"
abbreviation COLON :: byte where "COLON \<equiv> 58"
abbreviation CRLF :: bytes where "CRLF \<equiv> [CR, LF]"

section \<open>Lemmas on panics and arithmetic\<close>

named_theorems rust_simps \<open>unfolding rules for the modelled standard operations\<close>

declare usize_add_def [rust_simps] usize_sub_def [rust_simps] slice_to_def [rust_simps]
  slice_from_def [rust_simps] slice_get_def [rust_simps] lit_def [rust_simps]

lemma obind_cong [fundef_cong]:
  "m = m' \<Longrightarrow> (\<And>x. m' = Ret x \<Longrightarrow> f x = g x) \<Longrightarrow> obind m f = obind m' g"
  by (cases m') simp_all

lemma obind_assoc [simp]: "obind (obind m f) g = obind m (\<lambda>x. obind (f x) g)"
  by (cases m) simp_all

lemma obind_Ret_right [simp]: "obind m Ret = m"
  by (cases m) simp_all

lemma obind_eq_Ret_iff: "obind m f = Ret y \<longleftrightarrow> (\<exists>x. m = Ret x \<and> f x = Ret y)"
  by (cases m) simp_all

lemma obind_eq_Panic_iff:
  "obind m f = Panic p \<longleftrightarrow> m = Panic p \<or> (\<exists>x. m = Ret x \<and> f x = Panic p)"
  by (cases m) auto

lemma is_panic_obind:
  "is_panic (obind m f) \<longleftrightarrow> is_panic m \<or> (\<exists>x. m = Ret x \<and> is_panic (f x))"
  by (cases m) auto

lemma not_is_panic_iff: "\<not> is_panic m \<longleftrightarrow> (\<exists>x. m = Ret x)"
  by (cases m) auto

lemma omap_eq_Ret_iff: "omap f m = Ret y \<longleftrightarrow> (\<exists>x. m = Ret x \<and> y = f x)"
  by (cases m) auto

lemma is_panic_omap [simp]: "is_panic (omap f m) = is_panic m"
  by (cases m) auto

lemma unwrap_eq_Ret_iff [simp]: "unwrap p x = Ret y \<longleftrightarrow> x = Some y"
  by (cases x) auto

lemma is_panic_unwrap [simp]: "is_panic (unwrap p x) \<longleftrightarrow> x = None"
  by (cases x) auto

lemma usize_add_small [simp]: "a + b < usize_size \<Longrightarrow> usize_add oc a b = Ret (a + b)"
  by (simp add: usize_add_def)

lemma usize_sub_le [simp]: "b \<le> a \<Longrightarrow> usize_sub oc a b = Ret (a - b)"
  by (simp add: usize_sub_def)

lemma usize_sub_bound: "a < usize_size \<Longrightarrow> usize_sub oc a b = Ret c \<Longrightarrow> c < usize_size"
  by (auto simp: usize_sub_def split: if_splits)

lemma slice_to_le [simp]: "n \<le> length xs \<Longrightarrow> slice_to xs n = Ret (take n xs)"
  by (simp add: slice_to_def)

lemma slice_from_le [simp]: "n \<le> length xs \<Longrightarrow> slice_from xs n = Ret (drop n xs)"
  by (simp add: slice_from_def)

lemma slice_to_gt [simp]: "length xs < n \<Longrightarrow> slice_to xs n = Panic SliceIndex"
  by (simp add: slice_to_def)

text \<open>
  An index computed by a subtraction that underflows is never usable: with checks the
  subtraction panics, without them the wrapped index is far out of range.
\<close>

lemma underflow_slice_panics:
  assumes "a < b" and "b - a \<le> usize_size - Suc (length xs)" and "length xs < usize_size"
  shows "is_panic (obind (usize_sub oc a b) (slice_to xs))"
  using assms by (auto simp: usize_sub_def slice_to_def)

section \<open>Lemmas on searching and splitting\<close>

lemma find_window_Some:
  assumes "find_window pat xs = Some i"
  shows "take (length pat) (drop i xs) = pat" and "i < length xs"
    and "j < i \<Longrightarrow> take (length pat) (drop j xs) \<noteq> pat"
  using assms
proof (induction pat xs arbitrary: i j rule: find_window.induct)
  case (2 pat x xs)
  { case 1 with 2 show ?case by (auto split: if_splits) }
  { case 2 with "2.IH" show ?case by (auto split: if_splits) }
  { case 3 with "2.IH" show ?case by (cases j) (auto split: if_splits) }
qed simp_all

lemma find_window_bound:
  assumes "find_window pat xs = Some i"
  shows "i + length pat \<le> length xs"
proof -
  have "length (take (length pat) (drop i xs)) = length pat"
    using find_window_Some(1)[OF assms] by simp
  then show ?thesis using find_window_Some(2)[OF assms] by simp
qed

lemma find_window_None:
  assumes "find_window pat xs = None" and "pat \<noteq> []"
  shows "take (length pat) (drop i xs) \<noteq> pat"
  using assms
proof (induction pat xs arbitrary: i rule: find_window.induct)
  case (2 pat x xs)
  then show ?case by (cases i) (auto split: if_splits)
qed auto

text \<open>A match stays the first match when more input follows.\<close>

lemma find_window_append: "find_window pat xs = Some i \<Longrightarrow> find_window pat (xs @ ys) = Some i"
proof (induction pat xs arbitrary: i rule: find_window.induct)
  case (2 pat x xs)
  have "i + length pat \<le> length (x # xs)" by (rule find_window_bound[OF "2.prems"])
  then have "take (length pat) ((x # xs) @ ys) = take (length pat) (x # xs)"
    by (subst take_append) simp
  with 2 show ?case by (auto split: if_splits)
qed simp

lemma find_window_prefix_None: "find_window pat (xs @ ys) = None \<Longrightarrow> find_window pat xs = None"
  using find_window_append by (cases "find_window pat xs") fastforce+

text \<open>The search finds a pattern whose first element does not occur before it.\<close>

lemma find_window_skip:
  assumes "c \<notin> set xs" and "pat = c # ps"
  shows "find_window pat (xs @ pat @ ys) = Some (length xs)"
  using assms by (induction xs) auto

lemma find_window_absent:
  assumes "c \<notin> set xs" and "pat = c # ps"
  shows "find_window pat xs = None"
  using assms by (induction xs) auto

lemma split_on_nonempty [simp]: "split_on p xs \<noteq> []"
  by (induction xs) (auto split: list.splits)

lemma split_on_none: "(\<And>x. x \<in> set xs \<Longrightarrow> \<not> p x) \<Longrightarrow> split_on p xs = [xs]"
  by (induction xs) auto

lemma split_on_append:
  "(\<And>x. x \<in> set xs \<Longrightarrow> \<not> p x) \<Longrightarrow> p s \<Longrightarrow> split_on p (xs @ s # ys) = xs # split_on p ys"
  by (induction xs) auto

text \<open>The first piece is what precedes the first separator.\<close>

lemma split_on_unfold:
  "split_on p xs =
     takeWhile (\<lambda>x. \<not> p x) xs #
     (case dropWhile (\<lambda>x. \<not> p x) xs of [] \<Rightarrow> [] | _ # ys \<Rightarrow> split_on p ys)"
  by (induction xs) auto

lemma lit_append [simp]: "lit (s @ t) = lit s @ lit t"
  by (simp add: lit_def)

lemma length_lit [simp]: "length (lit s) = length s"
  by (simp add: lit_def)

end
