(* ===== verification/Rust_Std.thy ===== *)
theory Rust_Std
  imports Http_Prelude
begin

text \<open>
  The text functions of the Rust standard library that the crate calls, on strings as
  their UTF-8 bytes.
  \<^item> \<open>from_utf8_lossy\<close> follows the decoder of \<open>core::str::lossy\<close>: each maximal invalid
    prefix is replaced by U+FFFD.
  \<^item> \<open>to_lowercase\<close> is exact on ASCII text. For text with other characters it is
    the argument \<open>uni\<close>, which stands for the Unicode case tables.
  \<^item> \<open>parse_usize\<close> is \<open>str::parse::<usize>\<close> with its overflow check, \<open>show_nat\<close> is
    the decimal \<open>Display\<close> of an unsigned integer.
\<close>

section \<open>UTF-8\<close>

definition is_cont :: "byte option \<Rightarrow> bool" where
  "is_cont b = (case b of None \<Rightarrow> False | Some c \<Rightarrow> 128 \<le> c \<and> c \<le> 191)"

definition utf8_width :: "byte \<Rightarrow> nat" where
  "utf8_width b =
     (if b < 128 then 1
      else if 194 \<le> b \<and> b \<le> 223 then 2
      else if 224 \<le> b \<and> b \<le> 239 then 3
      else if 240 \<le> b \<and> b \<le> 244 then 4
      else 0)"

text \<open>The second byte of a three or four byte sequence excludes overlong forms,
  surrogates and code points beyond the last plane.\<close>

definition utf8_second :: "byte \<Rightarrow> byte option \<Rightarrow> bool" where
  "utf8_second b c =
     (case c of None \<Rightarrow> False
      | Some d \<Rightarrow>
         (if b = 224 then 160 \<le> d \<and> d \<le> 191
          else if b = 237 then 128 \<le> d \<and> d \<le> 159
          else if b = 240 then 144 \<le> d \<and> d \<le> 191
          else if b = 244 then 128 \<le> d \<and> d \<le> 143
          else 128 \<le> d \<and> d \<le> 191))"

text \<open>
  \<open>utf8_step bs\<close> looks at the sequence that starts a non-empty list: whether it is valid,
  and how many bytes it takes (for an invalid one, the bytes that one replacement
  character stands for).
\<close>

definition utf8_step :: "bytes \<Rightarrow> bool \<times> nat" where
  "utf8_step bs =
     (let b = hd bs; w = utf8_width b in
      if w = 1 then (True, 1)
      else if w = 2 then
        (if is_cont (slice_get bs 1) then (True, 2) else (False, 1))
      else if w = 3 then
        (if \<not> utf8_second b (slice_get bs 1) then (False, 1)
         else if is_cont (slice_get bs 2) then (True, 3) else (False, 2))
      else if w = 4 then
        (if \<not> utf8_second b (slice_get bs 1) then (False, 1)
         else if \<not> is_cont (slice_get bs 2) then (False, 2)
         else if is_cont (slice_get bs 3) then (True, 4) else (False, 3))
      else (False, 1))"

definition replacement :: bytes where
  "replacement = [239, 191, 189]"

lemma utf8_step_pos: "0 < snd (utf8_step bs)"
  by (simp add: utf8_step_def Let_def)

lemma utf8_step_shrinks:
  "bs \<noteq> [] \<Longrightarrow> (ok, k) = utf8_step bs \<Longrightarrow> length bs - k < length bs"
  using utf8_step_pos[of bs] by (cases "utf8_step bs") auto

function from_utf8_lossy :: "bytes \<Rightarrow> rstr" where
  "from_utf8_lossy bs =
     (if bs = [] then []
      else (case utf8_step bs of (ok, k) \<Rightarrow>
        (if ok then take k bs else replacement) @ from_utf8_lossy (drop k bs)))"
  by pat_completeness auto
termination
  by (relation "measure length") (auto simp: utf8_step_shrinks)

function utf8_valid :: "bytes \<Rightarrow> bool" where
  "utf8_valid bs =
     (if bs = [] then True
      else (case utf8_step bs of (ok, k) \<Rightarrow> ok \<and> utf8_valid (drop k bs)))"
  by pat_completeness auto
termination
  by (relation "measure length") (auto simp: utf8_step_shrinks)

declare from_utf8_lossy.simps [simp del] utf8_valid.simps [simp del]

section \<open>ASCII and case\<close>

definition is_ascii :: "bytes \<Rightarrow> bool" where
  "is_ascii bs = list_all (\<lambda>b. b < 128) bs"

definition ascii_lower :: "byte \<Rightarrow> byte" where
  "ascii_lower b = (if 65 \<le> b \<and> b \<le> 90 then b + 32 else b)"

definition to_lowercase :: "(rstr \<Rightarrow> rstr) \<Rightarrow> rstr \<Rightarrow> rstr" where
  "to_lowercase uni s = (if is_ascii s then map ascii_lower s else uni s)"

section \<open>Decimal numbers\<close>

definition is_digit :: "byte \<Rightarrow> bool" where
  "is_digit b \<longleftrightarrow> 48 \<le> b \<and> b \<le> 57"

fun parse_digits :: "nat \<Rightarrow> bytes \<Rightarrow> nat option" where
  "parse_digits acc [] = Some acc"
| "parse_digits acc (d # ds) =
     (if is_digit d then
        (let acc' = acc * 10 + (unat d - 48) in
         if acc' < usize_size then parse_digits acc' ds else None)
      else None)"

definition parse_usize :: "rstr \<Rightarrow> usize option" where
  "parse_usize s =
     (case s of [] \<Rightarrow> None
      | c # cs \<Rightarrow>
         (let ds = (if c = 43 then cs else s) in
          if ds = [] then None else parse_digits 0 ds))"

fun show_nat :: "nat \<Rightarrow> rstr" where
  "show_nat n =
     (if n < 10 then [of_nat (48 + n)]
      else show_nat (n div 10) @ [of_nat (48 + n mod 10)])"

declare show_nat.simps [simp del]

section \<open>Properties of the decoder\<close>

lemma utf8_step_valid_le: "bs \<noteq> [] \<Longrightarrow> utf8_step bs = (True, k) \<Longrightarrow> k \<le> length bs"
  by (cases bs) (auto simp: utf8_step_def Let_def slice_get_def is_cont_def utf8_second_def
      Suc_le_eq split: if_splits option.splits)

lemma utf8_step_ascii: "b < 128 \<Longrightarrow> utf8_step (b # bs) = (True, 1)"
  by (simp add: utf8_step_def utf8_width_def)

lemma from_utf8_lossy_Nil [simp]: "from_utf8_lossy [] = []"
  by (simp add: from_utf8_lossy.simps)

lemma from_utf8_lossy_ascii_Cons [simp]:
  "b < 128 \<Longrightarrow> from_utf8_lossy (b # bs) = b # from_utf8_lossy bs"
  by (subst from_utf8_lossy.simps) (simp add: utf8_step_ascii)

lemma from_utf8_lossy_ascii: "is_ascii bs \<Longrightarrow> from_utf8_lossy bs = bs"
  by (induction bs) (auto simp: is_ascii_def)

text \<open>A valid sequence is recognised whatever follows it.\<close>

lemma utf8_step_append:
  assumes "utf8_step bs = (True, k)" and "bs \<noteq> []"
  shows "utf8_step (take k bs @ ys) = (True, k)"
proof -
  obtain b cs where bs: "bs = b # cs" using assms(2) by (cases bs) auto
  have k: "k \<le> length bs" using utf8_step_valid_le[OF assms(2,1)] .
  have hd: "hd (take k bs @ ys) = b"
    using utf8_step_pos[of bs] assms(1) bs by (cases k) auto
  have get: "slice_get (take k bs @ ys) i = slice_get bs i" if "i < k" for i
    using that k by (auto simp: slice_get_def nth_append)
  show ?thesis
    using assms(1) get hd unfolding utf8_step_def Let_def bs
    by (auto split: if_splits)
qed

lemma utf8_step_replacement: "utf8_step (replacement @ ys) = (True, 3)"
  by (simp add: utf8_step_def utf8_width_def utf8_second_def is_cont_def slice_get_def
      replacement_def Let_def)

lemma utf8_valid_Nil [simp]: "utf8_valid []"
  by (simp add: utf8_valid.simps)

lemma utf8_valid_step:
  "utf8_step (xs @ ys) = (True, length xs) \<Longrightarrow> utf8_valid (xs @ ys) = utf8_valid ys"
  by (cases "xs @ ys = []") (auto simp: utf8_valid.simps[of "xs @ ys"])

text \<open>The result of the lossy decoder is valid UTF-8, so it is a Rust string.\<close>

lemma from_utf8_lossy_valid: "utf8_valid (from_utf8_lossy bs)"
proof (induction bs rule: from_utf8_lossy.induct)
  case (1 bs)
  show ?case
  proof (cases "bs = []")
    case False
    obtain ok k where st: "utf8_step bs = (ok, k)" by fastforce
    have IH: "utf8_valid (from_utf8_lossy (drop k bs))"
      using 1 False st by auto
    show ?thesis
    proof (cases ok)
      case True
      have "length (take k bs) = k"
        using utf8_step_valid_le[OF False] st True by simp
      then have "utf8_step (take k bs @ from_utf8_lossy (drop k bs)) = (True, length (take k bs))"
        using utf8_step_append[of bs k] st True False by simp
      from utf8_valid_step[OF this] IH False st True show ?thesis
        by (subst from_utf8_lossy.simps) simp
    next
      case ok: False
      have "utf8_step (replacement @ from_utf8_lossy (drop k bs)) = (True, length replacement)"
        using utf8_step_replacement by (simp add: replacement_def)
      from utf8_valid_step[OF this] IH False st ok show ?thesis
        by (subst from_utf8_lossy.simps) simp
    qed
  qed simp
qed

text \<open>Valid text is kept as it is.\<close>

lemma from_utf8_lossy_id: "utf8_valid bs \<Longrightarrow> from_utf8_lossy bs = bs"
proof (induction bs rule: from_utf8_lossy.induct)
  case (1 bs)
  show ?case
  proof (cases "bs = []")
    case False
    obtain ok k where st: "utf8_step bs = (ok, k)" by fastforce
    with 1 False have "ok" and "from_utf8_lossy (drop k bs) = drop k bs"
      by (auto simp: utf8_valid.simps[of bs])
    with False st show ?thesis by (subst from_utf8_lossy.simps) simp
  qed simp
qed

section \<open>Properties of case mapping\<close>

lemma is_ascii_append [simp]: "is_ascii (xs @ ys) \<longleftrightarrow> is_ascii xs \<and> is_ascii ys"
  by (simp add: is_ascii_def)

lemma to_lowercase_ascii: "is_ascii s \<Longrightarrow> to_lowercase uni s = map ascii_lower s"
  by (simp add: to_lowercase_def)

lemma ascii_lower_not_upper: "65 \<le> b \<Longrightarrow> b \<le> 90 \<Longrightarrow> \<not> b + 32 \<le> (90 :: byte)"
  by (simp add: word_le_nat_alt unat_word_ariths)

lemma ascii_lower_idem [simp]: "ascii_lower (ascii_lower b) = ascii_lower b"
  using ascii_lower_not_upper[of b] by (auto simp: ascii_lower_def)

section \<open>Round trip of decimal numbers\<close>

lemma unat_digit: "d < 10 \<Longrightarrow> unat (of_nat (48 + d) :: byte) = 48 + d"
  by (simp add: unat_of_nat del: of_nat_add)

lemma is_digit_of_nat: "d < 10 \<Longrightarrow> is_digit (of_nat (48 + d))"
  by (simp add: is_digit_def word_le_nat_alt unat_digit del: of_nat_add)

lemma show_nat_digits: "b \<in> set (show_nat n) \<Longrightarrow> is_digit b"
proof (induction n rule: show_nat.induct)
  case (1 n)
  then show ?case
    by (cases "n < 10") (auto simp: show_nat.simps[of n] is_digit_of_nat simp del: of_nat_add)
qed

lemma show_nat_nonempty [simp]: "show_nat n \<noteq> []"
  by (subst show_nat.simps) simp

lemma parse_digits_append:
  "parse_digits a (xs @ ys) = Option.bind (parse_digits a xs) (\<lambda>b. parse_digits b ys)"
  by (induction a xs rule: parse_digits.induct) (auto simp: Let_def)

lemma parse_digits_show: "n < usize_size \<Longrightarrow> parse_digits 0 (show_nat n) = Some n"
proof (induction n rule: show_nat.induct)
  case (1 n)
  show ?case
  proof (cases "n < 10")
    case True
    then show ?thesis
      using 1 by (simp add: show_nat.simps[of n] is_digit_of_nat unat_digit del: of_nat_add)
  next
    case False
    with 1 have "parse_digits 0 (show_nat (n div 10)) = Some (n div 10)" by simp
    moreover have "n div 10 * 10 + n mod 10 = n" by simp
    ultimately show ?thesis
      using False 1(2)
      by (simp add: show_nat.simps[of n] parse_digits_append is_digit_of_nat unat_digit
          del: of_nat_add)
  qed
qed

lemma parse_usize_show: "n < usize_size \<Longrightarrow> parse_usize (show_nat n) = Some n"
proof -
  assume n: "n < usize_size"
  obtain c cs where s: "show_nat n = c # cs" by (cases "show_nat n") auto
  have "is_digit c" using show_nat_digits[of c n] s by simp
  then have "c \<noteq> 43" by (auto simp: is_digit_def)
  then show ?thesis
    using parse_digits_show[OF n] s by (simp add: parse_usize_def)
qed

lemma parse_digits_bound: "parse_digits a s = Some n \<Longrightarrow> a < usize_size \<Longrightarrow> n < usize_size"
  by (induction a s rule: parse_digits.induct) (auto simp: Let_def split: if_splits)

lemma parse_usize_bound: "parse_usize s = Some n \<Longrightarrow> n < usize_size"
  by (auto simp: parse_usize_def Let_def usize_size_def dest!: parse_digits_bound
      split: list.splits if_splits)

end
