(* ===== verification/Httparse.thy ===== *)
theory Httparse
  imports Rust_Std
begin

text \<open>
  The response head parser, \<open>src/src/httparse.rs\<close>.
  \<open>ltrim\<close>, \<open>rtrim\<close>, \<open>parse_header\<close> and \<open>parse_status\<close> are the functions of the file;
  \<open>parse_headers\<close> builds the state of the iterator that the source returns, one call of
  its closure is \<open>parse_headers_next\<close>, and \<open>header_items\<close> runs it to the end. Slices that
  may be out of range and subtractions that may underflow are panics; \<open>oc\<close> is the
  overflow-check flag of the build profile.
\<close>

section \<open>Data\<close>

datatype header = Status u16 bytes bytes | Header bytes bytes

datatype parse_error =
    WrongStatusReason
  | WrongStatusHeader bytes
  | WrongStatusCode bytes
  | WrongHeader bytes

text \<open>What the closure of \<open>parse_headers\<close> captures.\<close>

record header_iter =
  hi_input :: bytes
  hi_status_parsed :: bool

section \<open>Trimming\<close>

fun ltrim :: "bytes \<Rightarrow> bytes" where
  "ltrim [] = []"
| "ltrim (b # bs) = (if b = SP then ltrim bs else b # bs)"

function rtrim :: "bool \<Rightarrow> bytes \<Rightarrow> bytes outcome" where
  "rtrim oc v =
     obind (usize_sub oc (length v) 1) (\<lambda>i.
       if slice_get v i = Some SP
       then obind (usize_sub oc (length v) 2) (\<lambda>n. obind (slice_to v n) (\<lambda>w. rtrim oc w))
       else Ret v)"
  by pat_completeness auto
termination
  by (relation "measure (length \<circ> snd)")
    (auto simp: slice_to_def slice_get_def usize_sub_def usize_size_def split: if_splits)

declare rtrim.simps [simp del]

section \<open>One line\<close>

definition parse_header :: "bool \<Rightarrow> bytes \<Rightarrow> (parse_error + bytes \<times> bytes) outcome" where
  "parse_header oc input =
     (let iter = split_on (\<lambda>x. x = COLON) input in
      obind (unwrap UnwrapNone (slice_get iter 0)) (\<lambda>first.
      obind (rtrim oc first) (\<lambda>trimmed.
        let name = ltrim trimmed in
        case slice_get iter 1 of
          None \<Rightarrow> Ret (Err (WrongHeader name))
        | Some val \<Rightarrow> omap (\<lambda>w. Ok (name, ltrim w)) (rtrim oc val))))"

text \<open>\<open>b as i16 - b'0' as i16\<close>: the difference of two bytes never overflows an \<open>i16\<close>.\<close>

definition digit_i16 :: "byte \<Rightarrow> 16 word" where
  "digit_i16 b = ucast b - 48"

definition parse_status :: "bytes \<Rightarrow> (parse_error + u16 \<times> bytes \<times> bytes) outcome" where
  "parse_status input =
     (let iter = split_on (\<lambda>i. i = SP) input in
      case slice_get iter 0 of
        None \<Rightarrow> Ret (Err (WrongStatusHeader []))
      | Some x \<Rightarrow>
        obind (slice_to x 4) (\<lambda>magic.
        if magic \<noteq> lit ''HTTP''
        then obind (slice_to input 4) (\<lambda>bad. Ret (Err (WrongStatusHeader bad)))
        else
          obind (slice_from x 5) (\<lambda>http_version.
          case slice_get iter 1 of
            None \<Rightarrow> Ret (Err (WrongStatusCode []))
          | Some code \<Rightarrow>
            if length code < 3 then Ret (Err (WrongStatusCode code))
            else
              (let a = digit_i16 (code ! 0); b = digit_i16 (code ! 1); c = digit_i16 (code ! 2) in
               if sint a < 1 \<or> sint a > 5 \<or> sint b < 0 \<or> sint b > 9 \<or> sint c < 0 \<or> sint c > 9
               then Ret (Err (WrongStatusCode code))
               else
                 (case slice_get iter 2 of
                    None \<Rightarrow> Ret (Err WrongStatusReason)
                  | Some reason \<Rightarrow>
                      Ret (Ok (a * 100 + b * 10 + c, http_version, reason)))))))"

section \<open>The iterator\<close>

definition parse_headers :: "bytes \<Rightarrow> header_iter" where
  "parse_headers input = \<lparr>hi_input = input, hi_status_parsed = False\<rparr>"

definition parse_headers_next ::
    "bool \<Rightarrow> header_iter \<Rightarrow> ((parse_error + header) option \<times> header_iter) outcome" where
  "parse_headers_next oc st =
     (case find_window CRLF (hi_input st) of
        None \<Rightarrow> Ret (None, st)
      | Some idx \<Rightarrow>
        obind (slice_to (hi_input st) idx) (\<lambda>line.
        obind (slice_from (hi_input st) (idx + 2)) (\<lambda>rest.
          let st' = st\<lparr>hi_input := rest\<rparr> in
          if \<not> hi_status_parsed st then
            omap (\<lambda>res.
              (Some (case res of
                 Err e \<Rightarrow> Err e
               | Ok (status, version, reason) \<Rightarrow> Ok (Status status version reason)),
               st'\<lparr>hi_status_parsed := True\<rparr>))
              (parse_status line)
          else if 0 < length line then
            omap (\<lambda>res.
              (Some (case res of
                 Err e \<Rightarrow> Err e
               | Ok (name, val) \<Rightarrow> Ok (Header name val)),
               st'))
              (parse_header oc line)
          else Ret (None, st'))))"

lemma parse_headers_next_shrinks:
  "parse_headers_next oc st = Ret (Some item, st') \<Longrightarrow>
   length (hi_input st') < length (hi_input st)"
  by (auto simp: parse_headers_next_def Let_def obind_eq_Ret_iff omap_eq_Ret_iff slice_to_def
      slice_from_def split: option.splits if_splits dest: find_window_Some(2))

lemma parse_headers_next_header:
  assumes "parse_headers_next oc st = Ret (Some item, st')" and "hi_status_parsed st"
  obtains line res where "hi_status_parsed st'" and "parse_header oc line = Ret res"
    and "item = (case res of Err e \<Rightarrow> Err e | Ok (name, val) \<Rightarrow> Ok (Header name val))"
  using assms
  by (auto simp: parse_headers_next_def Let_def obind_eq_Ret_iff omap_eq_Ret_iff
      split: option.splits if_splits)

lemma parse_headers_next_status:
  assumes "parse_headers_next oc st = Ret (Some item, st')" and "\<not> hi_status_parsed st"
  obtains line res where "hi_status_parsed st'" and "parse_status line = Ret res"
    and "item = (case res of Err e \<Rightarrow> Err e | Ok (s, v, r) \<Rightarrow> Ok (Status s v r))"
  using assms
  by (auto simp: parse_headers_next_def Let_def obind_eq_Ret_iff omap_eq_Ret_iff
      split: option.splits if_splits)

function header_items ::
    "bool \<Rightarrow> header_iter \<Rightarrow> (parse_error + header) list outcome" where
  "header_items oc st =
     obind (parse_headers_next oc st) (\<lambda>r.
       case r of
         (None, st') \<Rightarrow> Ret []
       | (Some item, st') \<Rightarrow> omap (\<lambda>items. item # items) (header_items oc st'))"
  by pat_completeness auto
termination
  by (relation "measure (\<lambda>(oc, st). length (hi_input st))")
    (auto dest: parse_headers_next_shrinks)

declare header_items.simps [simp del]

section \<open>A reference rendering of a response head\<close>

definition render_header :: "bytes \<times> bytes \<Rightarrow> bytes" where
  "render_header h = fst h @ lit '': '' @ snd h"

definition render_status :: "bytes \<Rightarrow> nat \<Rightarrow> bytes \<Rightarrow> bytes" where
  "render_status version code reason =
     lit ''HTTP/'' @ version @ [SP] @ show_nat code @ [SP] @ reason"

definition render_head :: "bytes \<Rightarrow> nat \<Rightarrow> bytes \<Rightarrow> (bytes \<times> bytes) list \<Rightarrow> bytes" where
  "render_head version code reason hs =
     render_status version code reason @ CRLF @
     concat (map (\<lambda>h. render_header h @ CRLF) hs) @ CRLF"

text \<open>Text the trimming functions leave alone.\<close>

definition trimmed :: "bytes \<Rightarrow> bool" where
  "trimmed v \<longleftrightarrow> v \<noteq> [] \<and> hd v \<noteq> SP \<and> last v \<noteq> SP"

definition before_colon :: "bytes \<Rightarrow> bytes" where
  "before_colon v = takeWhile (\<lambda>b. b \<noteq> COLON) v"

definition wf_field :: "bytes \<times> bytes \<Rightarrow> bool" where
  "wf_field h \<longleftrightarrow>
     CR \<notin> set (fst h) \<and> CR \<notin> set (snd h) \<and> COLON \<notin> set (fst h) \<and>
     trimmed (fst h) \<and> trimmed (before_colon (snd h))"

definition wf_status :: "bytes \<Rightarrow> nat \<Rightarrow> bytes \<Rightarrow> bool" where
  "wf_status version code reason \<longleftrightarrow>
     SP \<notin> set version \<and> CR \<notin> set version \<and> CR \<notin> set reason \<and> 100 \<le> code \<and> code \<le> 599"

section \<open>Trimming lemmas\<close>

lemma ltrim_dropWhile: "ltrim v = dropWhile (\<lambda>b. b = SP) v"
  by (induction v) auto

lemma ltrim_trimmed [simp]: "trimmed v \<Longrightarrow> ltrim v = v"
  by (cases v) (auto simp: trimmed_def)

lemma rtrim_keep: "v \<noteq> [] \<Longrightarrow> last v \<noteq> SP \<Longrightarrow> rtrim oc v = Ret v"
  by (subst rtrim.simps) (simp add: slice_get_def last_conv_nth Suc_le_eq)

lemma rtrim_drop2: "rtrim oc (u @ [x, SP]) = rtrim oc u"
  by (subst rtrim.simps) (simp add: slice_get_def nth_append)

lemma rtrim_lone_space: "is_panic (rtrim oc [SP])"
  by (subst rtrim.simps) (simp add: slice_get_def usize_sub_def usize_size_def slice_to_def)

lemma rtrim_empty: "rtrim oc [] = (if oc then Panic ArithOverflow else Ret [])"
  by (subst rtrim.simps) (simp add: slice_get_def usize_sub_def)

lemma rtrim_trimmed [simp]: "trimmed v \<Longrightarrow> rtrim oc v = Ret v"
  by (simp add: trimmed_def rtrim_keep)

text \<open>Whatever \<open>rtrim\<close> returns is a prefix of its argument that no longer ends in a space.\<close>

lemma rtrim_prefix:
  "rtrim oc v = Ret w \<Longrightarrow> \<exists>k. w = take k v \<and> (w \<noteq> [] \<longrightarrow> last w \<noteq> SP)"
proof (induction oc v rule: rtrim.induct)
  case (1 oc v)
  obtain i where i: "usize_sub oc (length v) 1 = Ret i"
    using "1.prems" by (auto simp: rtrim.simps[of oc v] obind_eq_Ret_iff)
  show ?case
  proof (cases "slice_get v i = Some SP")
    case True
    then obtain n where n: "usize_sub oc (length v) 2 = Ret n" and le: "n \<le> length v"
      and w: "rtrim oc (take n v) = Ret w"
      using "1.prems" i
      by (auto simp: rtrim.simps[of oc v] obind_eq_Ret_iff slice_to_def split: if_splits)
    have "\<exists>k. w = take k (take n v) \<and> (w \<noteq> [] \<longrightarrow> last w \<noteq> SP)"
      using "1.IH"[OF i True n _ w] le by simp
    then show ?thesis by (metis take_take)
  next
    case False
    then have "w = v" using "1.prems" i by (simp add: rtrim.simps[of oc v])
    moreover have "v \<noteq> [] \<Longrightarrow> slice_get v i = Some (last v)"
      using i by (auto simp: usize_sub_def slice_get_def last_conv_nth Suc_le_eq split: if_splits)
    ultimately show ?thesis using False by (intro exI[of _ "length v"]) auto
  qed
qed

text \<open>
  It cuts too much: a value that ends in a single space loses, with the space, the visible byte
  before it.
\<close>

lemma rtrim_drops_visible_byte: "u \<noteq> [] \<Longrightarrow> last u \<noteq> SP \<Longrightarrow> rtrim oc (u @ [x, SP]) = Ret u"
  by (simp add: rtrim_drop2 rtrim_keep)

text \<open>
  When \<open>rtrim\<close> panics: every second byte, counted from the last, is a space, and the length is odd,
  or overflow is checked.
\<close>

definition all_spaces_from_end :: "bytes \<Rightarrow> bool" where
  "all_spaces_from_end v \<longleftrightarrow> (\<forall>i<length v. even (length v - Suc i) \<longrightarrow> v ! i = SP)"

lemma all_spaces_snoc2:
  "all_spaces_from_end (u @ [x, y]) \<longleftrightarrow> y = SP \<and> all_spaces_from_end u"
proof
  assume a: "all_spaces_from_end (u @ [x, y])"
  then have "(u @ [x, y]) ! Suc (length u) = SP" by (auto simp: all_spaces_from_end_def)
  then have "y = SP" by (simp add: nth_append)
  moreover have "u ! i = SP" if "i < length u" "even (length u - Suc i)" for i
  proof -
    have "length (u @ [x, y]) - Suc i = length u - Suc i + 2" using that(1) by simp
    then have "even (length (u @ [x, y]) - Suc i)" using that(2) by presburger
    moreover have "i < length (u @ [x, y])" using that(1) by simp
    ultimately have "(u @ [x, y]) ! i = SP" using a unfolding all_spaces_from_end_def by blast
    with that(1) show ?thesis by (simp add: nth_append)
  qed
  ultimately show "y = SP \<and> all_spaces_from_end u" by (auto simp: all_spaces_from_end_def)
next
  assume b: "y = SP \<and> all_spaces_from_end u"
  show "all_spaces_from_end (u @ [x, y])"
    unfolding all_spaces_from_end_def
  proof (intro allI impI)
    fix i
    assume i: "i < length (u @ [x, y])" "even (length (u @ [x, y]) - Suc i)"
    consider "i = Suc (length u)" | "i = length u" | "i < length u" using i(1) by fastforce
    then show "(u @ [x, y]) ! i = SP"
    proof cases
      case 3
      then have "length (u @ [x, y]) - Suc i = length u - Suc i + 2" by simp
      with i(2) b 3 show ?thesis by (simp add: all_spaces_from_end_def nth_append)
    qed (use i b in \<open>simp_all add: nth_append\<close>)
  qed
qed

lemma rtrim_panic_iff:
  "is_panic (rtrim oc v) \<longleftrightarrow> all_spaces_from_end v \<and> (odd (length v) \<or> oc)"
proof (induction "length v" arbitrary: v rule: less_induct)
  case less
  consider "v = []" | x where "v = [x]" | u x y where "v = u @ [x, y]"
    by (metis append.assoc append_Cons append_Nil rev_exhaust)
  then show ?case
  proof cases
    case 1
    then show ?thesis by (simp add: rtrim_empty all_spaces_from_end_def)
  next
    case (2 x)
    then show ?thesis
      using rtrim_lone_space[of oc] rtrim_keep[of "[x]" oc]
      by (cases "x = SP") (auto simp: all_spaces_from_end_def)
  next
    case (3 u x y)
    show ?thesis
    proof (cases "y = SP")
      case True
      with 3 less[of u] show ?thesis by (simp add: rtrim_drop2 all_spaces_snoc2)
    next
      case False
      with 3 show ?thesis by (simp add: rtrim_keep all_spaces_snoc2)
    qed
  qed
qed

definition untrimmable :: "bool \<Rightarrow> bytes \<Rightarrow> bool" where
  "untrimmable oc v \<longleftrightarrow> all_spaces_from_end v \<and> (odd (length v) \<or> oc)"

section \<open>Header lines\<close>

lemma slice_get_Cons_0 [simp]: "slice_get (x # xs) 0 = Some x"
  by (simp add: slice_get_def)

lemma slice_get_Cons_Suc [simp]: "slice_get (x # xs) (Suc n) = slice_get xs n"
  by (simp add: slice_get_def)

lemma slice_get_split_0 [simp]: "slice_get (split_on p xs) 0 = Some (takeWhile (\<lambda>x. \<not> p x) xs)"
  by (subst split_on_unfold) simp

lemma lit_colon_space: "lit '': '' = [COLON, SP]"
  by (simp add: lit_def)

lemma parse_header_line:
  assumes "COLON \<notin> set n"
  shows "parse_header oc (n @ COLON # v) =
    obind (rtrim oc n) (\<lambda>t. omap (\<lambda>w. Ok (ltrim t, ltrim w)) (rtrim oc (before_colon v)))"
proof -
  have "split_on (\<lambda>x. x = COLON) (n @ COLON # v) = n # split_on (\<lambda>x. x = COLON) v"
    using assms by (intro split_on_append) auto
  then show ?thesis by (simp add: parse_header_def before_colon_def Let_def)
qed

lemma parse_header_no_colon:
  assumes "COLON \<notin> set l"
  shows "parse_header oc l = omap (\<lambda>t. Err (WrongHeader (ltrim t))) (rtrim oc l)"
proof -
  have "split_on (\<lambda>x. x = COLON) l = [l]"
    using assms by (intro split_on_none) auto
  then show ?thesis
    by (cases "rtrim oc l") (simp_all add: parse_header_def Let_def slice_get_def)
qed

lemma rtrim_space_trimmed: "trimmed v \<Longrightarrow> rtrim oc (SP # v) = Ret (SP # v)"
  by (intro rtrim_keep) (auto simp: trimmed_def)

lemma parse_header_render:
  assumes "wf_field h"
  shows "parse_header oc (render_header h) = Ret (Ok (fst h, before_colon (snd h)))"
proof -
  have "before_colon (SP # snd h) = SP # before_colon (snd h)"
    by (simp add: before_colon_def)
  then show ?thesis
    using assms parse_header_line[of "fst h" oc "SP # snd h"]
    by (simp add: wf_field_def render_header_def lit_colon_space rtrim_space_trimmed)
qed

definition after_colon :: "bytes \<Rightarrow> bytes" where
  "after_colon l = tl (dropWhile (\<lambda>b. b \<noteq> COLON) l)"

lemma split_at_colon: "COLON \<in> set l \<Longrightarrow> l = before_colon l @ COLON # after_colon l"
  unfolding before_colon_def after_colon_def
  by (induction l) auto

lemma parse_header_panic_iff:
  "is_panic (parse_header oc l) \<longleftrightarrow>
     is_panic (rtrim oc (before_colon l)) \<or>
     COLON \<in> set l \<and> is_panic (rtrim oc (before_colon (after_colon l)))"
proof (cases "COLON \<in> set l")
  case True
  have n: "COLON \<notin> set (before_colon l)" by (auto simp: before_colon_def dest: set_takeWhileD)
  have "parse_header oc l = obind (rtrim oc (before_colon l)) (\<lambda>t.
      omap (\<lambda>w. Ok (ltrim t, ltrim w)) (rtrim oc (before_colon (after_colon l))))"
    using parse_header_line[OF n, of oc "after_colon l"] split_at_colon[OF True] by simp
  with True show ?thesis by (cases "rtrim oc (before_colon l)") auto
next
  case False
  then have "before_colon l = l" by (auto simp: before_colon_def takeWhile_eq_all_conv)
  with False show ?thesis by (simp add: parse_header_no_colon)
qed

section \<open>The status line\<close>

lemma show_nat_3:
  assumes "100 \<le> n" and "n < 1000"
  shows "show_nat n =
    [of_nat (48 + n div 100), of_nat (48 + n div 10 mod 10), of_nat (48 + n mod 10)]"
proof -
  have "n div 10 div 10 = n div 100" by (simp flip: div_mult2_eq)
  moreover have "n div 100 < 10" and "\<not> n div 10 < 10" using assms by linarith+
  ultimately show ?thesis
    using assms by (simp add: show_nat.simps[of n] show_nat.simps[of "n div 10"]
        show_nat.simps[of "n div 100"] del: of_nat_add)
qed

lemma digit_i16_of_nat: "d < 10 \<Longrightarrow> digit_i16 (of_nat (48 + d)) = of_nat d"
  unfolding digit_i16_def
  by (subst unsigned_of_nat) (simp add: take_bit_nat_eq_self del: of_nat_add, simp)

lemma sint_small: "d < 10 \<Longrightarrow> sint (of_nat d :: 16 word) = int d"
  by (simp add: signed_of_nat signed_take_bit_int_eq_self)

lemma status_word: "of_nat (n div 100) * 100 + of_nat (n div 10 mod 10) * 10 + of_nat (n mod 10) =
    (of_nat n :: 16 word)"
proof -
  have "n div 10 div 10 = n div 100" by (simp flip: div_mult2_eq)
  moreover have "10 * (n div 10 div 10) + n div 10 mod 10 = n div 10"
    and "10 * (n div 10) + n mod 10 = n" by simp_all
  ultimately have "n div 100 * 100 + n div 10 mod 10 * 10 + n mod 10 = n" by linarith
  then have "of_nat (n div 100 * 100 + n div 10 mod 10 * 10 + n mod 10) = (of_nat n :: 16 word)"
    by (rule arg_cong)
  then show ?thesis by (simp only: of_nat_add of_nat_mult of_nat_numeral)
qed

lemma split_status:
  assumes "SP \<notin> set version"
  shows "split_on (\<lambda>i. i = SP) (render_status version code reason) =
    (lit ''HTTP/'' @ version) # show_nat code # split_on (\<lambda>i. i = SP) reason"
proof -
  have digits: "\<not> x = SP" if "x \<in> set (show_nat code)" for x
    using show_nat_digits[OF that] by (auto simp: is_digit_def)
  have magic: "\<not> x = SP" if "x \<in> set (lit ''HTTP/'' @ version)" for x
    using that assms by (auto simp: lit_def)
  have "split_on (\<lambda>i. i = SP) ((lit ''HTTP/'' @ version) @ SP # show_nat code @ SP # reason) =
      (lit ''HTTP/'' @ version) # split_on (\<lambda>i. i = SP) (show_nat code @ SP # reason)"
    by (rule split_on_append) (use magic in auto)
  also have "split_on (\<lambda>i. i = SP) (show_nat code @ SP # reason) =
      show_nat code # split_on (\<lambda>i. i = SP) reason"
    by (rule split_on_append) (use digits in auto)
  finally show ?thesis by (simp add: render_status_def)
qed

lemma parse_status_render:
  assumes "wf_status version code reason"
  shows "parse_status (render_status version code reason) =
    Ret (Ok (of_nat code, version, takeWhile (\<lambda>b. b \<noteq> SP) reason))"
proof -
  have sp: "SP \<notin> set version" and c: "100 \<le> code" "code \<le> 599"
    using assms by (auto simp: wf_status_def)
  have d: "code div 100 < 10" "1 \<le> code div 100" "code div 100 \<le> 5"
    "code div 10 mod 10 < 10" "code mod 10 < 10"
    using c by simp_all
  have code: "show_nat code = [of_nat (48 + code div 100), of_nat (48 + code div 10 mod 10),
      of_nat (48 + code mod 10)]"
    using c by (intro show_nat_3) auto
  have digits: "length (show_nat code) = 3"
    "digit_i16 (show_nat code ! 0) = of_nat (code div 100)"
    "digit_i16 (show_nat code ! Suc 0) = of_nat (code div 10 mod 10)"
    "digit_i16 (show_nat code ! 2) = of_nat (code mod 10)"
    using d by (simp_all add: code digit_i16_of_nat del: of_nat_add)
  have third: "slice_get (x # y # zs) 2 = slice_get zs 0" for x y :: bytes and zs
    by (simp add: numeral_2_eq_2)
  have x: "slice_to (lit ''HTTP/'' @ version) 4 = Ret (lit ''HTTP'')"
    "slice_from (lit ''HTTP/'' @ version) 5 = Ret version"
    by (simp_all add: slice_to_def slice_from_def lit_def)
  have "code div 10 mod 10 \<le> 9" "code mod 10 \<le> 9" using d by linarith+
  with d show ?thesis
    by (simp add: parse_status_def split_status[OF sp] Let_def third digits sint_small
        status_word x not_less)
qed

lemma parse_status_Ok_bounds:
  assumes "parse_status input = Ret (Ok (code, version, reason))"
  shows "100 \<le> unat code \<and> unat code \<le> 599"
proof -
  obtain a b c :: "16 word"
    where code: "code = a * 100 + b * 10 + c"
      and a: "1 \<le> sint a" "sint a \<le> 5" and b: "0 \<le> sint b" "sint b \<le> 9"
      and c: "0 \<le> sint c" "sint c \<le> 9"
    using assms
    by (fastforce simp: parse_status_def Let_def obind_eq_Ret_iff not_less
        split: option.splits if_splits)
  have u: "sint w = uint w" if "0 \<le> sint w" "sint w \<le> 9" for w :: "16 word"
    using that by (simp add: uint_sint take_bit_int_eq_self)
  have "uint a \<le> 5" "1 \<le> uint a" "uint b \<le> 9" "uint c \<le> 9"
    using a b c u[of a] u[of b] u[of c] by auto
  then have "a \<le> 5" "1 \<le> a" "b \<le> 9" "c \<le> 9"
    by (simp_all add: word_le_def)
  then have *: "unat a \<le> 5" "1 \<le> unat a" "unat b \<le> 9" "unat c \<le> 9"
    by (simp_all add: word_le_nat_alt)
  then have "unat code = unat a * 100 + unat b * 10 + unat c"
    unfolding code by (simp add: unat_word_ariths)
  with * show ?thesis by simp
qed

lemma parse_status_panic_iff:
  "is_panic (parse_status input) \<longleftrightarrow>
     length (takeWhile (\<lambda>b. b \<noteq> SP) input) < 4 \<or> takeWhile (\<lambda>b. b \<noteq> SP) input = lit ''HTTP''"
proof -
  let ?x = "takeWhile (\<lambda>b. b \<noteq> SP) input"
  have le: "length ?x \<le> length input" by (rule length_takeWhile_le)
  show ?thesis
  proof (cases "length ?x < 4")
    case True
    then show ?thesis by (simp add: parse_status_def Let_def slice_to_def)
  next
    case False
    have "length ?x = 4 \<Longrightarrow> take 4 ?x = lit ''HTTP'' \<longleftrightarrow> ?x = lit ''HTTP''" by simp
    moreover have "?x = lit ''HTTP'' \<Longrightarrow> length ?x = 4" by simp
    ultimately show ?thesis
      using False le
      by (cases "length ?x = 4")
        (auto simp: parse_status_def Let_def slice_to_def slice_from_def
          split: option.splits)
  qed
qed

section \<open>Running the iterator\<close>

lemma find_window_line: "CR \<notin> set line \<Longrightarrow> find_window CRLF (line @ CR # LF # rest) = Some (length line)"
  using find_window_skip[of CR line CRLF "[LF]" rest] by simp

lemma next_status:
  assumes "CR \<notin> set line"
  shows "parse_headers_next oc \<lparr>hi_input = line @ CRLF @ rest, hi_status_parsed = False\<rparr> =
    omap (\<lambda>res. (Some (case res of Err e \<Rightarrow> Err e | Ok (s, v, r) \<Rightarrow> Ok (Status s v r)),
      \<lparr>hi_input = rest, hi_status_parsed = True\<rparr>)) (parse_status line)"
  using find_window_line[OF assms, of rest]
  by (simp add: parse_headers_next_def slice_to_def slice_from_def Let_def)

lemma next_header:
  assumes "CR \<notin> set line" and "line \<noteq> []"
  shows "parse_headers_next oc \<lparr>hi_input = line @ CRLF @ rest, hi_status_parsed = True\<rparr> =
    omap (\<lambda>res. (Some (case res of Err e \<Rightarrow> Err e | Ok (n, v) \<Rightarrow> Ok (Header n v)),
      \<lparr>hi_input = rest, hi_status_parsed = True\<rparr>)) (parse_header oc line)"
  using find_window_line[OF assms(1), of rest] assms(2)
  by (simp add: parse_headers_next_def slice_to_def slice_from_def Let_def)

lemma next_end:
  "parse_headers_next oc \<lparr>hi_input = CRLF @ rest, hi_status_parsed = True\<rparr> =
    Ret (None, \<lparr>hi_input = rest, hi_status_parsed = True\<rparr>)"
  by (simp add: parse_headers_next_def slice_to_def slice_from_def Let_def)

lemma render_header_line:
  "wf_field h \<Longrightarrow> CR \<notin> set (render_header h) \<and> render_header h \<noteq> []"
  by (auto simp: wf_field_def render_header_def lit_colon_space)

lemma render_status_line: "wf_status version code reason \<Longrightarrow> CR \<notin> set (render_status version code reason)"
  using show_nat_digits[of CR code]
  by (auto simp: wf_status_def render_status_def lit_def is_digit_def)

lemma header_items_fields:
  assumes "list_all wf_field hs"
  shows "header_items oc \<lparr>hi_input = concat (map (\<lambda>h. render_header h @ CRLF) hs) @ CRLF @ rest,
      hi_status_parsed = True\<rparr> =
    Ret (map (\<lambda>h. Ok (Header (fst h) (before_colon (snd h)))) hs)"
  using assms
proof (induction hs)
  case Nil
  then show ?case using next_end[of oc rest] by (subst header_items.simps) simp
next
  case (Cons h hs)
  then have wf: "wf_field h" by simp
  let ?rest = "concat (map (\<lambda>h. render_header h @ CRLF) hs) @ CRLF @ rest"
  have "parse_headers_next oc \<lparr>hi_input = render_header h @ CRLF @ ?rest, hi_status_parsed = True\<rparr> =
    Ret (Some (Ok (Header (fst h) (before_colon (snd h)))),
      \<lparr>hi_input = ?rest, hi_status_parsed = True\<rparr>)"
    using next_header[of "render_header h" oc ?rest] render_header_line[OF wf]
      parse_header_render[OF wf, of oc] by simp
  with Cons show ?case by (subst header_items.simps) simp
qed

lemma header_items_render:
  assumes "wf_status version code reason" and "list_all wf_field hs"
  shows "header_items oc (parse_headers (render_head version code reason hs @ rest)) =
    Ret (Ok (Status (of_nat code) version (takeWhile (\<lambda>b. b \<noteq> SP) reason)) #
         map (\<lambda>h. Ok (Header (fst h) (before_colon (snd h)))) hs)"
proof -
  let ?rest = "concat (map (\<lambda>h. render_header h @ CRLF) hs) @ CRLF @ rest"
  have "parse_headers_next oc (parse_headers (render_status version code reason @ CRLF @ ?rest)) =
    Ret (Some (Ok (Status (of_nat code) version (takeWhile (\<lambda>b. b \<noteq> SP) reason))),
      \<lparr>hi_input = ?rest, hi_status_parsed = True\<rparr>)"
    using next_status[of "render_status version code reason" oc ?rest]
      render_status_line[OF assms(1)] parse_status_render[OF assms(1)]
    by (simp add: parse_headers_def)
  then show ?thesis
    using header_items_fields[OF assms(2), of oc rest]
    by (subst header_items.simps) (simp add: render_head_def)
qed

section \<open>Properties\<close>

text \<open>
  (C4) Round trip of a response head: a head rendered from a status line and header fields, with
  any bytes after it, parses into exactly one status item and one item per field in their
  order, and the iterator stops at the blank line. The fields must be free of line
  breaks, padding and colons in the name; of a value the part before its first colon is kept,
  and of the reason its first word.
\<close>

theorem header_items_roundtrip:
  assumes "wf_status version code reason" and "list_all wf_field hs"
  shows "header_items oc (parse_headers (render_head version code reason hs @ rest)) =
    Ret (Ok (Status (of_nat code) version (takeWhile (\<lambda>b. b \<noteq> SP) reason)) #
         map (\<lambda>h. Ok (Header (fst h) (before_colon (snd h)))) hs)"
  by (rule header_items_render[OF assms])

theorem header_items_roundtrip_witness:
  "header_items True (parse_headers (render_head (lit ''1.1'') 404 (lit ''Not Found'')
      [(lit ''Server'', lit ''nginx''), (lit ''Location'', lit ''http://a'')] @ lit ''body'')) =
    Ret [Ok (Status 404 (lit ''1.1'') (lit ''Not'')), Ok (Header (lit ''Server'') (lit ''nginx'')),
         Ok (Header (lit ''Location'') (lit ''http''))]"
proof -
  have "wf_status (lit ''1.1'') 404 (lit ''Not Found'')"
    and "list_all wf_field [(lit ''Server'', lit ''nginx''), (lit ''Location'', lit ''http://a'')]"
    by code_simp+
  from header_items_roundtrip[OF this, of True "lit ''body''"] show ?thesis
    by (simp add: before_colon_def lit_def)
qed

text \<open>
  (C37) The exact condition under which a header line brings the parser down: the name or, if
  there is a colon, the value up to the next colon cannot be trimmed. That is the case when every
  second byte of it, counted from the last, is a space and its length is odd; with
  overflow checks also when its length is even, in particular when it is empty.
\<close>

theorem parse_header_panics_iff:
  "is_panic (parse_header oc line) \<longleftrightarrow>
     untrimmable oc (before_colon line) \<or>
     COLON \<in> set line \<and> untrimmable oc (before_colon (after_colon line))"
  by (simp add: parse_header_panic_iff rtrim_panic_iff untrimmable_def)

text \<open>
  A header line with an empty value brings the parser down: for \<open>Name: \<close> followed by
  nothing, the trimming of the value indexes out of range, in every build profile.
\<close>

lemma empty_value_panics:
  assumes "trimmed n" and "COLON \<notin> set n"
  shows "is_panic (parse_header oc (n @ [COLON, SP]))"
  using assms parse_header_line[OF assms(2), of oc "[SP]"] rtrim_lone_space[of oc]
  by (simp add: before_colon_def)

lemma empty_value_panics_witness: "is_panic (parse_header False (lit ''Server: ''))"
proof -
  have "trimmed (lit ''Server'')" and "COLON \<notin> set (lit ''Server'')" by code_simp+
  from empty_value_panics[OF this, of False] show ?thesis by (simp add: lit_def)
qed

text \<open>
  (C38) What \<open>parse_status\<close> does with any line: it panics exactly on a first word shorter than four
  bytes or equal to \<open>HTTP\<close>, and a status code that it accepts is a number from 100 to 599,
  computed without wrap-around in 16 bits.
\<close>

theorem parse_status_outcome:
  "(is_panic (parse_status input) \<longleftrightarrow>
     length (takeWhile (\<lambda>b. b \<noteq> SP) input) < 4 \<or> takeWhile (\<lambda>b. b \<noteq> SP) input = lit ''HTTP'') \<and>
   (\<forall>code version reason. parse_status input = Ret (Ok (code, version, reason)) \<longrightarrow>
     100 \<le> unat code \<and> unat code \<le> 599)"
  using parse_status_panic_iff[of input] parse_status_Ok_bounds[of input] by blast

theorem parse_status_outcome_witness:
  "parse_status (lit ''HTTP/1.1 599 Odd'') = Ret (Ok (599, lit ''1.1'', lit ''Odd'')) \<and>
   100 \<le> unat (599 :: u16) \<and> unat (599 :: u16) \<le> 599"
proof -
  have p: "parse_status (lit ''HTTP/1.1 599 Odd'') = Ret (Ok (599, lit ''1.1'', lit ''Odd''))"
    by code_simp
  from parse_status_outcome[of "lit ''HTTP/1.1 599 Odd''"] p show ?thesis by blast
qed

end
