(* ===== verification/Body_Stream.thy ===== *)
theory Body_Stream
  imports Http_Prelude
begin

text \<open>
  The transport as the client sees it, and the response body stream of \<open>src/src/body.rs\<close>.

  A \<open>conn\<close> is one side of a connection together with what its environment will answer:
  \<open>arrivals\<close> are the answers to successive reads (bytes, the end of the stream as an empty
  list, or an error), \<open>answers\<close> the answers to successive \<open>write_all\<close> calls (success, or an
  error after some number of bytes has gone out), \<open>sent\<close> the bytes written so far. A read takes at most as many bytes as its buffer holds and leaves
  the others for the next read; a read or a write with no answer left is pending.

  \<open>body\<close> has the fields of \<open>Body\<close>, \<open>poll_next\<close> is its stream implementation, and
  \<open>read_body\<close> is a consumer that collects the chunks until the stream ends, blocks or fails.
\<close>

section \<open>The transport\<close>

record conn =
  arrivals :: "bytes io_result list"
  answers :: "(nat \<times> io_error + unit) list"
  sent :: bytes

definition conn_read :: "nat \<Rightarrow> conn \<Rightarrow> bytes io_poll \<times> conn" where
  "conn_read cap c =
     (case arrivals c of
        [] \<Rightarrow> (Ok NotReady, c)
      | Err e # as \<Rightarrow> (Err e, c\<lparr>arrivals := as\<rparr>)
      | Ok bs # as \<Rightarrow>
          if length bs \<le> cap then (Ok (Ready bs), c\<lparr>arrivals := as\<rparr>)
          else (Ok (Ready (take cap bs)), c\<lparr>arrivals := Ok (drop cap bs) # as\<rparr>))"

definition conn_write_all :: "bytes \<Rightarrow> conn \<Rightarrow> unit io_poll \<times> conn" where
  "conn_write_all bs c =
     (case answers c of
        [] \<Rightarrow> (Ok NotReady, c)
      | Err (k, e) # as \<Rightarrow> (Err e, c\<lparr>answers := as, sent := sent c @ take k bs\<rparr>)
      | Ok u # as \<Rightarrow> (Ok (Ready ()), c\<lparr>answers := as, sent := sent c @ bs\<rparr>))"

section \<open>The body\<close>

datatype reader = EmptySlice | Conn conn

record body =
  b_drained :: bool
  b_rest :: "bytes option"
  b_buf :: bytes
  b_counter :: usize
  b_content_length :: "usize option"
  b_reader :: reader

definition body_empty :: body where
  "body_empty = \<lparr>b_drained = True, b_rest = None, b_buf = [], b_counter = 0, b_content_length = None,
     b_reader = EmptySlice\<rparr>"

text \<open>\<open>uninit\<close> is what the 4096 bytes of the uninitialised buffer happen to hold.\<close>

definition body_new :: "bytes \<Rightarrow> conn \<Rightarrow> bytes option \<Rightarrow> usize option \<Rightarrow> body" where
  "body_new uninit c r cl = \<lparr>b_drained = False, b_rest = r, b_buf = uninit, b_counter = 0,
     b_content_length = cl, b_reader = Conn c\<rparr>"

definition reader_read :: "nat \<Rightarrow> reader \<Rightarrow> bytes io_poll \<times> reader" where
  "reader_read cap r =
     (case r of
        EmptySlice \<Rightarrow> (Ok (Ready []), EmptySlice)
      | Conn c \<Rightarrow> (case conn_read cap c of (p, c') \<Rightarrow> (p, Conn c')))"

definition poll_next :: "bool \<Rightarrow> body \<Rightarrow> (bytes io_result option async \<times> body) outcome" where
  "poll_next oc this =
     (if b_drained this then Ret (Ready None, this)
      else case b_rest this of
        Some vec \<Rightarrow> Ret (Ready (Some (Ok vec)), this\<lparr>b_rest := None\<rparr>)
      | None \<Rightarrow>
        (case reader_read (length (b_buf this)) (b_reader this) of
           (Ok NotReady, r) \<Rightarrow> Ret (NotReady, this\<lparr>b_reader := r\<rparr>)
         | (Ok (Ready bs), r) \<Rightarrow>
             (let this = this\<lparr>b_reader := r, b_buf := bs @ drop (length bs) (b_buf this)\<rparr>;
                  n = length bs in
              obind (usize_add oc (b_counter this) n) (\<lambda>counter'.
              let this = this\<lparr>b_counter := counter'\<rparr> in
              obind (case b_content_length this of
                       None \<Rightarrow> Ret n
                     | Some limit \<Rightarrow>
                         if limit < counter'
                         then obind (usize_sub oc counter' limit) (usize_sub oc n)
                         else Ret n)
                (\<lambda>n. if 0 < n
                     then omap (\<lambda>v. (Ready (Some (Ok v)), this)) (slice_to (b_buf this) n)
                     else Ret (Ready None, this))))
         | (Err err, r) \<Rightarrow>
             Ret (Ready (Some (Err err)), this\<lparr>b_reader := r, b_drained := True\<rparr>)))"

section \<open>A consumer\<close>

datatype body_end = Eof | Blocked | Failed io_error

text \<open>The loop polls until the stream ends, blocks or fails, and \<open>fuel\<close> bounds the polls.\<close>

fun read_body :: "bool \<Rightarrow> nat \<Rightarrow> body \<Rightarrow> (bytes \<times> body_end \<times> body) outcome option" where
  "read_body oc 0 b = None"
| "read_body oc (Suc fuel) b =
     (case poll_next oc b of
        Panic p \<Rightarrow> Some (Panic p)
      | Ret (NotReady, b') \<Rightarrow> Some (Ret ([], Blocked, b'))
      | Ret (Ready None, b') \<Rightarrow> Some (Ret ([], Eof, b'))
      | Ret (Ready (Some (Err e)), b') \<Rightarrow> Some (Ret ([], Failed e, b'))
      | Ret (Ready (Some (Ok v)), b') \<Rightarrow>
          map_option (omap (\<lambda>(w, en, b''). (v @ w, en, b''))) (read_body oc fuel b'))"

section \<open>Work and size of the pending input\<close>

fun arrival_work :: "bytes io_result list \<Rightarrow> nat" where
  "arrival_work [] = 0"
| "arrival_work (Err e # as) = Suc (arrival_work as)"
| "arrival_work (Ok bs # as) = Suc (length bs) + arrival_work as"

fun arrival_bytes :: "bytes io_result list \<Rightarrow> nat" where
  "arrival_bytes [] = 0"
| "arrival_bytes (Err e # as) = arrival_bytes as"
| "arrival_bytes (Ok bs # as) = length bs + arrival_bytes as"

definition reader_arrivals :: "reader \<Rightarrow> bytes io_result list" where
  "reader_arrivals r = (case r of EmptySlice \<Rightarrow> [] | Conn c \<Rightarrow> arrivals c)"

definition body_work :: "body \<Rightarrow> nat" where
  "body_work b = (if b_rest b = None then 0 else 1) + arrival_work (reader_arrivals (b_reader b))"

text \<open>
  The invariant of a body: the buffer keeps its 4096 bytes, and the byte counter stays far
  from the limit of \<open>usize\<close>, counting everything that may still arrive.
\<close>

definition body_inv :: "body \<Rightarrow> bool" where
  "body_inv b \<longleftrightarrow>
     (b_drained b \<or> length (b_buf b) = 4096) \<and>
     b_counter b + arrival_bytes (reader_arrivals (b_reader b)) < usize_size - 4096"

text \<open>The number of bytes of a read that the content length lets through.\<close>

definition allowed :: "body \<Rightarrow> nat \<Rightarrow> nat" where
  "allowed b n = (case b_content_length b of None \<Rightarrow> n | Some m \<Rightarrow> min n (m - b_counter b))"

definition over_limit :: "body \<Rightarrow> bool" where
  "over_limit b = (case b_content_length b of None \<Rightarrow> False | Some m \<Rightarrow> m < b_counter b)"

section \<open>Lemmas on reads\<close>

lemma conn_read_Ready:
  "conn_read cap c = (Ok (Ready bs), c') \<Longrightarrow>
   length bs \<le> cap \<and> arrival_bytes (arrivals c') + length bs = arrival_bytes (arrivals c) \<and>
   (bs \<noteq> [] \<longrightarrow> arrival_work (arrivals c') < arrival_work (arrivals c))"
  by (auto simp: conn_read_def split: list.splits sum.splits if_splits)

lemma conn_read_other:
  "conn_read cap c = (p, c') \<Longrightarrow> (\<And>bs. p \<noteq> Ok (Ready bs)) \<Longrightarrow>
   arrival_bytes (arrivals c') = arrival_bytes (arrivals c)"
  by (auto simp: conn_read_def split: list.splits sum.splits if_splits)

lemma reader_read_Ready:
  "reader_read cap r = (Ok (Ready bs), r') \<Longrightarrow>
   length bs \<le> cap \<and>
   arrival_bytes (reader_arrivals r') + length bs = arrival_bytes (reader_arrivals r) \<and>
   (bs \<noteq> [] \<longrightarrow> arrival_work (reader_arrivals r') < arrival_work (reader_arrivals r))"
  by (auto simp: reader_read_def reader_arrivals_def split: reader.splits prod.splits
      dest!: conn_read_Ready)

lemma reader_read_other:
  "reader_read cap r = (p, r') \<Longrightarrow> (\<And>bs. p \<noteq> Ok (Ready bs)) \<Longrightarrow>
   arrival_bytes (reader_arrivals r') = arrival_bytes (reader_arrivals r)"
  by (auto simp: reader_read_def reader_arrivals_def split: reader.splits prod.splits
      dest!: conn_read_other)

section \<open>One poll\<close>

lemma poll_drained: "b_drained b \<Longrightarrow> poll_next oc b = Ret (Ready None, b)"
  by (simp add: poll_next_def)

lemma poll_rest:
  "\<not> b_drained b \<Longrightarrow> b_rest b = Some v \<Longrightarrow>
   poll_next oc b = Ret (Ready (Some (Ok v)), b\<lparr>b_rest := None\<rparr>)"
  by (simp add: poll_next_def)

lemma poll_pending:
  "\<not> b_drained b \<Longrightarrow> b_rest b = None \<Longrightarrow>
   reader_read (length (b_buf b)) (b_reader b) = (Ok NotReady, r) \<Longrightarrow>
   poll_next oc b = Ret (NotReady, b\<lparr>b_reader := r\<rparr>)"
  by (simp add: poll_next_def)

lemma poll_error:
  "\<not> b_drained b \<Longrightarrow> b_rest b = None \<Longrightarrow>
   reader_read (length (b_buf b)) (b_reader b) = (Err e, r) \<Longrightarrow>
   poll_next oc b = Ret (Ready (Some (Err e)), b\<lparr>b_reader := r, b_drained := True\<rparr>)"
  by (simp add: poll_next_def)

text \<open>The state after a read that brought \<open>bs\<close>.\<close>

definition after_read :: "body \<Rightarrow> bytes \<Rightarrow> reader \<Rightarrow> body" where
  "after_read b bs r = b\<lparr>b_reader := r, b_buf := bs @ drop (length bs) (b_buf b),
     b_counter := b_counter b + length bs\<rparr>"

lemma poll_data:
  assumes "body_inv b" and "\<not> b_drained b" and "b_rest b = None"
    and rd: "reader_read (length (b_buf b)) (b_reader b) = (Ok (Ready bs), r)"
  shows "\<not> over_limit b \<Longrightarrow> poll_next oc b =
      Ret (Ready (if allowed b (length bs) = 0 then None
                  else Some (Ok (take (allowed b (length bs)) bs))), after_read b bs r)"
    and "over_limit b \<Longrightarrow> is_panic (poll_next oc b)"
proof -
  have len: "length bs \<le> 4096" "length (b_buf b) = 4096"
    and cnt: "b_counter b + length bs < usize_size - 4096"
    using reader_read_Ready[OF rd] assms(1,2) by (auto simp: body_inv_def)
  have add: "usize_add oc (b_counter b) (length bs) = Ret (b_counter b + length bs)"
    using cnt by simp
  show "is_panic (poll_next oc b)" if over: "over_limit b"
  proof -
    obtain m where m: "b_content_length b = Some m" "m < b_counter b"
      using over by (auto simp: over_limit_def split: option.splits)
    have "usize_sub oc (length bs) (b_counter b + length bs - m) =
        (if oc then Panic ArithOverflow else Ret (usize_size - (b_counter b - m)))"
      using m cnt by (auto simp: usize_sub_def)
    then show ?thesis
      using m assms len cnt add rd
      by (auto simp: poll_next_def Let_def slice_to_def)
  qed
  show "poll_next oc b =
      Ret (Ready (if allowed b (length bs) = 0 then None
                  else Some (Ok (take (allowed b (length bs)) bs))), after_read b bs r)"
    if "\<not> over_limit b"
  proof (cases "b_content_length b")
    case None
    then show ?thesis
      using assms len add rd
      by (simp add: poll_next_def Let_def allowed_def after_read_def)
  next
    case (Some m)
    then have "b_counter b \<le> m" using that by (simp add: over_limit_def)
    then show ?thesis
      using assms len add rd Some
      by (auto simp: poll_next_def Let_def allowed_def after_read_def min_def)
  qed
qed

lemma after_read_inv:
  assumes "body_inv b" and "\<not> b_drained b"
    and rd: "reader_read (length (b_buf b)) (b_reader b) = (Ok (Ready bs), r)"
  shows "body_inv (after_read b bs r)"
  using assms reader_read_Ready[OF rd] by (auto simp: body_inv_def after_read_def)

lemma poll_cases:
  assumes "body_inv b"
  obtains
    (drained) "b_drained b" "poll_next oc b = Ret (Ready None, b)"
  | (rest) v where "\<not> b_drained b" "b_rest b = Some v"
      "poll_next oc b = Ret (Ready (Some (Ok v)), b\<lparr>b_rest := None\<rparr>)"
  | (pending) r where "\<not> b_drained b" "b_rest b = None"
      "reader_read (length (b_buf b)) (b_reader b) = (Ok NotReady, r)"
      "poll_next oc b = Ret (NotReady, b\<lparr>b_reader := r\<rparr>)"
  | (error) e r where "\<not> b_drained b" "b_rest b = None"
      "reader_read (length (b_buf b)) (b_reader b) = (Err e, r)"
      "poll_next oc b = Ret (Ready (Some (Err e)), b\<lparr>b_reader := r, b_drained := True\<rparr>)"
  | (data) bs r where "\<not> b_drained b" "b_rest b = None"
      "reader_read (length (b_buf b)) (b_reader b) = (Ok (Ready bs), r)" "\<not> over_limit b"
      "poll_next oc b = Ret (Ready (if allowed b (length bs) = 0 then None
        else Some (Ok (take (allowed b (length bs)) bs))), after_read b bs r)"
  | (over) bs r p where "\<not> b_drained b" "b_rest b = None"
      "reader_read (length (b_buf b)) (b_reader b) = (Ok (Ready bs), r)" "over_limit b"
      "poll_next oc b = Panic p"
proof (cases "b_drained b \<or> b_rest b \<noteq> None")
  case True
  then show thesis
    using that(1,2) by (cases "b_drained b") (auto simp: poll_drained poll_rest)
next
  case False
  obtain p r where pr: "reader_read (length (b_buf b)) (b_reader b) = (p, r)" by fastforce
  consider "p = Ok NotReady" | e where "p = Err e" | bs where "p = Ok (Ready bs)"
    by (metis sumE async.exhaust)
  then show thesis
  proof cases
    case 1
    with False pr show ?thesis using that(3) poll_pending by auto
  next
    case (2 e)
    with False pr show ?thesis using that(4) poll_error by auto
  next
    case (3 bs)
    with pr have rd: "reader_read (length (b_buf b)) (b_reader b) = (Ok (Ready bs), r)" by simp
    show ?thesis
      using poll_data[OF assms _ _ rd, of oc] that(5,6)[OF _ _ rd] False
      by (cases "over_limit b"; cases "poll_next oc b") auto
  qed
qed

lemma poll_next_inv:
  assumes inv: "body_inv b" and "poll_next oc b = Ret (x, b')"
  shows "body_inv b'"
proof (rule poll_cases[OF inv, of oc])
  fix bs r
  assume "\<not> b_drained b" and "reader_read (length (b_buf b)) (b_reader b) = (Ok (Ready bs), r)"
    and "poll_next oc b = Ret (Ready (if allowed b (length bs) = 0 then None
        else Some (Ok (take (allowed b (length bs)) bs))), after_read b bs r)"
  with after_read_inv[OF inv] assms(2) show ?thesis by simp
qed (use assms in \<open>auto simp: body_inv_def dest!: reader_read_other\<close>)

lemma allowed_le: "allowed b n \<le> n"
  by (auto simp: allowed_def split: option.splits)

lemma poll_next_work:
  assumes inv: "body_inv b" and "poll_next oc b = Ret (Ready (Some (Ok v)), b')"
  shows "body_work b' < body_work b"
proof (rule poll_cases[OF inv, of oc])
  fix bs r
  assume rd: "reader_read (length (b_buf b)) (b_reader b) = (Ok (Ready bs), r)"
    and "b_rest b = None"
    and "poll_next oc b = Ret (Ready (if allowed b (length bs) = 0 then None
        else Some (Ok (take (allowed b (length bs)) bs))), after_read b bs r)"
  moreover from this assms(2) have "bs \<noteq> []"
    using allowed_le[of b "length bs"] by (auto split: if_splits)
  ultimately show ?thesis
    using assms(2) reader_read_Ready[OF rd] by (auto simp: body_work_def after_read_def)
qed (use assms in \<open>auto simp: body_work_def\<close>)

section \<open>The consumer\<close>

lemma read_body_enough:
  "body_inv b \<Longrightarrow> body_work b < fuel \<Longrightarrow> \<exists>res. read_body oc fuel b = Some res"
proof (induction fuel arbitrary: b)
  case (Suc fuel)
  have step: "\<exists>res. read_body oc fuel b' = Some res"
    if "poll_next oc b = Ret (Ready (Some (Ok v)), b')" for v b'
    using Suc poll_next_inv[OF Suc.prems(1) that] poll_next_work[OF Suc.prems(1) that] by simp
  show ?case
    by (rule poll_cases[OF Suc.prems(1), of oc]) (use step in fastforce)+
qed simp

text \<open>The bytes taken from the reader never exceed the content length.\<close>

lemma read_body_limit:
  assumes "body_inv b" and "b_content_length b = Some m"
    and "read_body oc fuel b = Some (Ret (w, en, b'))"
  shows "length w \<le> (case b_rest b of None \<Rightarrow> 0 | Some v \<Rightarrow> length v) + (m - b_counter b)"
  using assms
proof (induction fuel arbitrary: b w)
  case (Suc fuel)
  show ?case
  proof (rule poll_cases[OF Suc.prems(1), of oc])
    fix v
    assume v: "b_rest b = Some v"
      and poll: "poll_next oc b = Ret (Ready (Some (Ok v)), b\<lparr>b_rest := None\<rparr>)"
    then obtain u where "w = v @ u"
      and "read_body oc fuel (b\<lparr>b_rest := None\<rparr>) = Some (Ret (u, en, b'))"
      using Suc.prems(3) by (auto simp: omap_eq_Ret_iff)
    with Suc.IH[of "b\<lparr>b_rest := None\<rparr>" u] poll_next_inv[OF Suc.prems(1) poll] Suc.prems(2) v
    show ?thesis by simp
  next
    fix bs r
    assume none: "b_rest b = None" and nover: "\<not> over_limit b"
      and poll: "poll_next oc b = Ret (Ready (if allowed b (length bs) = 0 then None
        else Some (Ok (take (allowed b (length bs)) bs))), after_read b bs r)"
    show ?thesis
    proof (cases "allowed b (length bs) = 0")
      case True
      with poll Suc.prems(3) show ?thesis by simp
    next
      case False
      with poll Suc.prems(3) obtain u where w: "w = take (allowed b (length bs)) bs @ u"
        and u: "read_body oc fuel (after_read b bs r) = Some (Ret (u, en, b'))"
        by (auto simp: omap_eq_Ret_iff)
      have "length u \<le> m - (b_counter b + length bs)"
        using Suc.IH[OF poll_next_inv[OF Suc.prems(1) poll] _ u] Suc.prems(2) none
        by (simp add: after_read_def)
      with w Suc.prems(2) show ?thesis by (auto simp: allowed_def)
    qed
  qed (use Suc.prems in auto)
qed simp

section \<open>Complete delivery\<close>

text \<open>The bytes a connection delivers before it reports the end of the stream.\<close>

fun until_eof :: "bytes io_result list \<Rightarrow> bytes option" where
  "until_eof [] = None"
| "until_eof (Err e # as) = None"
| "until_eof (Ok [] # as) = Some []"
| "until_eof (Ok (b # bs) # as) = map_option (\<lambda>d. (b # bs) @ d) (until_eof as)"

lemma until_eof_Cons:
  "until_eof (Ok bs # as) = (if bs = [] then Some [] else map_option (\<lambda>d. bs @ d) (until_eof as))"
  by (cases bs) auto

lemma until_eof_bytes: "until_eof as = Some d \<Longrightarrow> length d \<le> arrival_bytes as"
  by (induction as arbitrary: d rule: until_eof.induct) auto

lemma conn_read_until_eof:
  assumes "until_eof (arrivals c) = Some d" and "0 < cap"
  obtains bs c' where "conn_read cap c = (Ok (Ready bs), c')"
    and "bs = [] \<longrightarrow> d = []"
    and "bs \<noteq> [] \<longrightarrow> (\<exists>d'. until_eof (arrivals c') = Some d' \<and> d = bs @ d')"
proof -
  obtain bs as where as: "arrivals c = Ok bs # as"
    using assms(1) by (cases "arrivals c" rule: until_eof.cases) auto
  show thesis
  proof (cases "length bs \<le> cap")
    case True
    with as assms show ?thesis
      by (intro that[of bs "c\<lparr>arrivals := as\<rparr>"])
        (auto simp: conn_read_def until_eof_Cons split: if_splits)
  next
    case False
    then have "bs \<noteq> []" and "drop cap bs \<noteq> []" by auto
    with as assms False show ?thesis
      by (intro that[of "take cap bs" "c\<lparr>arrivals := Ok (drop cap bs) # as\<rparr>"])
        (auto simp: conn_read_def until_eof_Cons)
  qed
qed

text \<open>Whether \<open>d\<close> further bytes stay within the content length.\<close>

definition within_limit :: "body \<Rightarrow> nat \<Rightarrow> bool" where
  "within_limit b d = (case b_content_length b of None \<Rightarrow> True | Some m \<Rightarrow> b_counter b + d \<le> m)"

lemma within_limit_allowed:
  "within_limit b (n + k) \<Longrightarrow> allowed b n = n \<and> \<not> over_limit b"
  by (auto simp: within_limit_def allowed_def over_limit_def split: option.splits)

lemma within_limit_after:
  "within_limit b (length bs + k) \<Longrightarrow> within_limit (after_read b bs r) k"
  by (auto simp: within_limit_def after_read_def split: option.splits)

lemma read_body_delivers:
  assumes "body_inv b" and "\<not> b_drained b" and "b_rest b = None" and "b_reader b = Conn c"
    and "until_eof (arrivals c) = Some d" and "within_limit b (length d)"
    and "body_work b < fuel"
  shows "\<exists>b'. read_body oc fuel b = Some (Ret (d, Eof, b'))"
  using assms
proof (induction fuel arbitrary: b c d)
  case (Suc fuel)
  have cap: "length (b_buf b) = 4096" using Suc.prems by (simp add: body_inv_def)
  obtain bs c' where cr: "conn_read 4096 c = (Ok (Ready bs), c')"
    and e: "bs = [] \<longrightarrow> d = []"
    and ne: "bs \<noteq> [] \<longrightarrow> (\<exists>d'. until_eof (arrivals c') = Some d' \<and> d = bs @ d')"
    by (rule conn_read_until_eof[OF Suc.prems(5), of 4096]) auto
  have rd: "reader_read (length (b_buf b)) (b_reader b) = (Ok (Ready bs), Conn c')"
    using cap Suc.prems(4) cr by (simp add: reader_read_def)
  obtain k where "length d = length bs + k"
    using e ne by (cases "bs = []") auto
  then have al: "allowed b (length bs) = length bs" "\<not> over_limit b"
    and wl: "within_limit (after_read b bs (Conn c')) k"
    using within_limit_allowed within_limit_after Suc.prems(6) by auto
  note poll = poll_data(1)[OF Suc.prems(1-3) rd al(2), of oc, unfolded al(1)]
  show ?case
  proof (cases "bs = []")
    case True
    with poll e show ?thesis by simp
  next
    case False
    then obtain d' where d': "until_eof (arrivals c') = Some d'" "d = bs @ d'" using ne by blast
    from False poll have poll': "poll_next oc b = Ret (Ready (Some (Ok bs)), after_read b bs (Conn c'))"
      by simp
    have "\<exists>b'. read_body oc fuel (after_read b bs (Conn c')) = Some (Ret (d', Eof, b'))"
    proof (rule Suc.IH)
      show "body_inv (after_read b bs (Conn c'))" by (rule poll_next_inv[OF Suc.prems(1) poll'])
      show "body_work (after_read b bs (Conn c')) < fuel"
        using poll_next_work[OF Suc.prems(1) poll'] Suc.prems(7) by simp
      show "within_limit (after_read b bs (Conn c')) (length d')"
        using Suc.prems(6) d'(2) within_limit_after by simp
    qed (use d' Suc.prems in \<open>simp_all add: after_read_def\<close>)
    with poll' d' show ?thesis by auto
  qed
qed simp

lemma body_new_inv:
  "length uninit = 4096 \<Longrightarrow> arrival_bytes (arrivals c) < usize_size - 4096 \<Longrightarrow>
   body_inv (body_new uninit c r cl)"
  by (simp add: body_inv_def body_new_def reader_arrivals_def)

lemma read_body_new_delivers:
  assumes "length uninit = 4096" and "arrival_bytes (arrivals c) < usize_size - 4096"
    and "until_eof (arrivals c) = Some d"
    and "case cl of None \<Rightarrow> True | Some m \<Rightarrow> length d \<le> m"
    and "arrival_work (arrivals c) + 2 < fuel"
  shows "\<exists>b'. read_body oc fuel (body_new uninit c (Some pre) cl) = Some (Ret (pre @ d, Eof, b'))"
proof -
  obtain f where f: "fuel = Suc f" using assms(5) by (cases fuel) auto
  let ?b = "body_new uninit c (Some pre) cl"
  let ?b' = "body_new uninit c None cl"
  have poll: "poll_next oc ?b = Ret (Ready (Some (Ok pre)), ?b')"
    by (simp add: poll_next_def body_new_def)
  have "\<exists>b'. read_body oc f ?b' = Some (Ret (d, Eof, b'))"
  proof (rule read_body_delivers)
    show "body_inv ?b'" using body_new_inv assms by blast
    show "within_limit ?b' (length d)"
      using assms(4) by (simp add: within_limit_def body_new_def split: option.splits)
  qed (use assms f in \<open>simp_all add: body_new_def body_work_def reader_arrivals_def\<close>)
  with f poll show ?thesis by auto
qed

lemma after_error_drained:
  assumes "poll_next oc b = Ret (Ready (Some (Err e)), b')"
  shows "b_drained b'"
  using assms
  by (auto simp: poll_next_def Let_def obind_eq_Ret_iff omap_eq_Ret_iff
      split: if_splits option.splits prod.splits sum.splits async.splits)

section \<open>Properties\<close>

text \<open>
  (C5) A response body is delivered completely and in order: reading a fresh body to its end
  gives the bytes that came with the head, followed by everything the connection brings up to
  its end, in whatever pieces it arrives, provided an announced content length covers
  them. Enough polls for this are two more than the work left in the connection.
\<close>

theorem body_delivers_everything:
  assumes "length uninit = 4096" and "arrival_bytes (arrivals c) < usize_size - 4096"
    and "until_eof (arrivals c) = Some d"
    and "case cl of None \<Rightarrow> True | Some m \<Rightarrow> length d \<le> m"
    and "arrival_work (arrivals c) + 2 < fuel"
  shows "\<exists>b'. read_body oc fuel (body_new uninit c (Some pre) cl) = Some (Ret (pre @ d, Eof, b'))"
  by (rule read_body_new_delivers[OF assms])

theorem body_delivers_everything_witness:
  "\<exists>b'. read_body True 9 (body_new (replicate 4096 0)
      \<lparr>arrivals = [Ok [3, 4], Ok [5], Ok []], answers = [], sent = []\<rparr> (Some [1, 2]) (Some 7)) =
    Some (Ret ([1, 2] @ [3, 4, 5], Eof, b'))"
  by (rule body_delivers_everything) (simp_all add: usize_size_def)

text \<open>
  (C20) No body exceeds its announced length: whatever the connection brings, the bytes a consumer
  gets are at most those that came with the head plus the content length.
\<close>

theorem body_respects_content_length:
  assumes "length uninit = 4096" and "arrival_bytes (arrivals c) < usize_size - 4096"
    and "read_body oc fuel (body_new uninit c (Some pre) (Some m)) = Some (Ret (w, en, b'))"
  shows "length w \<le> length pre + m"
  using read_body_limit[OF body_new_inv[OF assms(1,2), of "Some pre" "Some m"] _ assms(3)]
  by (simp add: body_new_def)

theorem body_respects_content_length_witness: "length [9, 1, 2 :: byte] \<le> length [9 :: byte] + 2"
proof (rule body_respects_content_length)
  show "read_body True 3 (body_new (replicate 4096 0)
      \<lparr>arrivals = [Ok [1, 2]], answers = [], sent = []\<rparr> (Some [9]) (Some 2)) =
    Some (Ret ([9, 1, 2], Blocked, after_read (body_new (replicate 4096 0)
      \<lparr>arrivals = [Ok [1, 2]], answers = [], sent = []\<rparr> None (Some 2)) [1, 2]
      (Conn \<lparr>arrivals = [], answers = [], sent = []\<rparr>)))"
    by (simp add: numeral_3_eq_3 poll_next_def body_new_def reader_read_def conn_read_def Let_def
        after_read_def usize_size_def)
qed (simp_all add: usize_size_def)

text \<open>
  Reading a body always comes to an end: with more polls than the work left in it, the
  consumer's loop returns, be it the end of the body, a pending read, an error or a panic.
\<close>

lemma read_body_terminates:
  assumes "body_inv b" and "body_work b < fuel"
  shows "\<exists>res. read_body oc fuel b = Some res"
  by (rule read_body_enough[OF assms])

lemma read_body_terminates_witness:
  "\<exists>res. read_body False 5 (body_new (replicate 4096 0)
      \<lparr>arrivals = [Ok [1, 2]], answers = [], sent = []\<rparr> (Some []) None) = Some res"
  by (rule read_body_terminates)
    (simp_all add: body_inv_def body_work_def body_new_def reader_arrivals_def usize_size_def)

text \<open>
  (C21) Every poll keeps the body's invariant: the buffer keeps its 4096 bytes while the body is
  open, and the counter of received bytes cannot reach the limit of \<open>usize\<close>.
\<close>

theorem poll_next_keeps_invariant:
  assumes "body_inv b" and "poll_next oc b = Ret (x, b')"
  shows "body_inv b'"
  by (rule poll_next_inv[OF assms])

theorem poll_next_keeps_invariant_witness:
  "body_inv (body_new (replicate 4096 0) \<lparr>arrivals = [Ok [1]], answers = [], sent = []\<rparr> None (Some 5))"
proof (rule poll_next_keeps_invariant)
  let ?c = "\<lparr>arrivals = [Ok [1]], answers = [], sent = []\<rparr>"
  show "body_inv (body_new (replicate 4096 0) ?c (Some [7]) (Some 5))"
    by (simp add: body_inv_def body_new_def reader_arrivals_def usize_size_def)
  show "poll_next True (body_new (replicate 4096 0) ?c (Some [7]) (Some 5)) =
      Ret (Ready (Some (Ok [7])), body_new (replicate 4096 0) ?c None (Some 5))"
    by (simp add: poll_next_def body_new_def)
qed

text \<open>
  An error ends the body: after a poll that returned an error, every further poll, however
  many there are, returns the end of the stream and leaves the body as it is.
\<close>

lemma error_ends_body:
  assumes "poll_next oc b = Ret (Ready (Some (Err e)), b')"
  shows "poll_next oc b' = Ret (Ready None, b') \<and> read_body oc (Suc fuel) b' = Some (Ret ([], Eof, b'))"
  using after_error_drained[OF assms] by (simp add: poll_drained)

lemma error_ends_body_witness:
  "read_body True 1 ((body_new [0] \<lparr>arrivals = [], answers = [], sent = []\<rparr> None None)\<lparr>b_drained := True\<rparr>) =
    Some (Ret ([], Eof, (body_new [0] \<lparr>arrivals = [], answers = [], sent = []\<rparr> None None)\<lparr>b_drained := True\<rparr>))"
proof -
  have "poll_next True (body_new [0] \<lparr>arrivals = [Err (IoError Other ''x'')], answers = [], sent = []\<rparr> None None) =
    Ret (Ready (Some (Err (IoError Other ''x''))),
      (body_new [0] \<lparr>arrivals = [], answers = [], sent = []\<rparr> None None)\<lparr>b_drained := True\<rparr>)"
    by (simp add: poll_next_def body_new_def reader_read_def conn_read_def)
  from error_ends_body[OF this, of 0] show ?thesis by simp
qed

lemma over_limit_panics:
  assumes "body_inv b" and "\<not> b_drained b" and "b_rest b = None" and "over_limit b"
    and "reader_read (length (b_buf b)) (b_reader b) = (Ok (Ready bs), r)"
  shows "\<exists>p. read_body oc (Suc fuel) b = Some (Panic p)"
  using poll_data(2)[OF assms(1-3,5,4), of oc] by (cases "poll_next oc b") auto

text \<open>
  A connection that brings the pieces \<open>ps\<close>, one per read, to a body that may still take \<open>d\<close>
  bytes: reading ends at the limit when a read does, and panics otherwise.
\<close>

lemma prefix_hits_Cons:
  assumes "0 < d"
  shows "(\<exists>k. length (concat (take k (p # ps))) = d) \<longleftrightarrow>
    length p \<le> d \<and> (\<exists>k. length (concat (take k ps)) = d - length p)"
proof
  assume "\<exists>k. length (concat (take k (p # ps))) = d"
  then obtain k where k: "length (concat (take k (p # ps))) = d" ..
  with assms obtain j where "k = Suc j" by (cases k) auto
  with k show "length p \<le> d \<and> (\<exists>k. length (concat (take k ps)) = d - length p)" by auto
next
  assume "length p \<le> d \<and> (\<exists>k. length (concat (take k ps)) = d - length p)"
  then obtain k where "length p \<le> d" "length (concat (take k ps)) = d - length p" by blast
  then have "length (concat (take (Suc k) (p # ps))) = d" by simp
  then show "\<exists>k. length (concat (take k (p # ps))) = d" by blast
qed

lemma reader_read_piece:
  "arrivals c = Ok p # as \<Longrightarrow> length p \<le> cap \<Longrightarrow>
   reader_read cap (Conn c) = (Ok (Ready p), Conn (c\<lparr>arrivals := as\<rparr>))"
  by (simp add: reader_read_def conn_read_def)

lemma read_body_overrun:
  assumes "body_inv b" and "\<not> b_drained b" and "b_rest b = None" and "b_content_length b = Some (b_counter b + d)"
    and "b_reader b = Conn c" and "arrivals c = map Ok ps @ Ok [] # as"
    and "\<forall>p\<in>set ps. p \<noteq> [] \<and> length p \<le> 4096" and "d < length (concat ps)" and "length ps < fuel"
  shows "if \<exists>k. length (concat (take k ps)) = d
    then \<exists>b'. read_body oc fuel b = Some (Ret (take d (concat ps), Eof, b'))
    else \<exists>p. read_body oc fuel b = Some (Panic p)"
  using assms
proof (induction ps arbitrary: b c d fuel)
  case (Cons p ps)
  obtain n where fuel: "fuel = Suc n" "length ps < n" using Cons.prems(9) by (cases fuel) auto
  let ?r = "Conn (c\<lparr>arrivals := map Ok ps @ Ok [] # as\<rparr>)"
  let ?b = "after_read b p ?r"
  have len: "length (b_buf b) = 4096" using Cons.prems(1,2) by (simp add: body_inv_def)
  have rd: "reader_read (length (b_buf b)) (b_reader b) = (Ok (Ready p), ?r)"
    using Cons.prems(5-7) len by (simp add: reader_read_piece)
  have al: "\<not> over_limit b" "allowed b (length p) = min (length p) d"
    using Cons.prems(4) by (simp_all add: over_limit_def allowed_def)
  note poll = poll_data(1)[OF Cons.prems(1-3) rd al(1), of oc, unfolded al(2)]
  note inv = after_read_inv[OF Cons.prems(1,2) rd]
  have b: "\<not> b_drained ?b" "b_rest ?b = None" "b_reader ?b = ?r" "length (b_buf ?b) = 4096"
    "b_content_length ?b = Some (b_counter b + d)" "b_counter ?b = b_counter b + length p"
    using Cons.prems(2-4,7) len by (simp_all add: after_read_def)
  have "p \<noteq> []" using Cons.prems(7) by simp
  consider "d = 0" | "0 < d" "length p \<le> d" | "0 < d" "d < length p" by linarith
  then show ?case
  proof cases
    case 1
    with poll fuel show ?thesis by (auto intro: exI[of _ 0])
  next
    case 2
    have step: "read_body oc fuel b =
        map_option (omap (\<lambda>(w, en, b''). (p @ w, en, b''))) (read_body oc n ?b)"
      using poll 2 \<open>p \<noteq> []\<close> fuel(1) by (simp add: min_absorb1)
    have "if \<exists>k. length (concat (take k ps)) = d - length p
      then \<exists>b'. read_body oc n ?b = Some (Ret (take (d - length p) (concat ps), Eof, b'))
      else \<exists>p. read_body oc n ?b = Some (Panic p)"
      by (rule Cons.IH[OF inv b(1,2) _ b(3)]) (use Cons.prems b 2 fuel in auto)
    with step show ?thesis
      unfolding prefix_hits_Cons[OF 2(1)] using 2(2) by (auto split: if_splits)
  next
    case 3
    have next_read: "\<exists>q r. reader_read (length (b_buf ?b)) (b_reader ?b) = (Ok (Ready q), r)"
      unfolding b(3,4) using Cons.prems(7)
      by (cases ps) (simp_all add: reader_read_piece)
    obtain m where m: "n = Suc m" using fuel(2) by (cases n) auto
    have "over_limit ?b" using b(5,6) 3(2) by (simp add: over_limit_def)
    with next_read obtain q where "read_body oc n ?b = Some (Panic q)"
      unfolding m using over_limit_panics[OF inv b(1,2)] by blast
    with poll 3 fuel show ?thesis
      unfolding prefix_hits_Cons[OF 3(1)] by (auto simp: min_absorb2)
  qed
qed simp

text \<open>
  (C39) What a server does to the consumer when it sends more than it announced, exactly: let \<open>ps\<close>
  be what successive reads after the head bring until the connection ends, longer in total than
  the content length \<open>m\<close>. If one of the reads ends exactly at the limit, the consumer gets what
  came with the head and the first \<open>m\<close> bytes after it, and the end of the stream. If none
  does, reading panics, in every build profile: the read that passes the limit delivers its
  allowed part, and the read after it, be it data or the end of the connection, is the panic.
\<close>

theorem overrun_crashes_consumer:
  assumes "length uninit = 4096" and "arrival_bytes (arrivals c) < usize_size - 4096"
    and "arrivals c = map Ok ps @ Ok [] # as" and "\<forall>p\<in>set ps. p \<noteq> [] \<and> length p \<le> 4096"
    and "m < length (concat ps)" and "length ps + 1 < fuel"
  shows "if \<exists>k. length (concat (take k ps)) = m
    then \<exists>b'. read_body oc fuel (body_new uninit c (Some pre) (Some m)) =
      Some (Ret (pre @ take m (concat ps), Eof, b'))
    else \<exists>p. read_body oc fuel (body_new uninit c (Some pre) (Some m)) = Some (Panic p)"
proof -
  obtain n where fuel: "fuel = Suc n" "length ps < n" using assms(6) by (cases fuel) auto
  let ?b = "body_new uninit c None (Some m)"
  have "if \<exists>k. length (concat (take k ps)) = m
    then \<exists>b'. read_body oc n ?b = Some (Ret (take m (concat ps), Eof, b'))
    else \<exists>p. read_body oc n ?b = Some (Panic p)"
    by (rule read_body_overrun[OF body_new_inv[OF assms(1,2)] _ _ _ _ assms(3-5) fuel(2)])
      (simp_all add: body_new_def)
  moreover have "poll_next oc (body_new uninit c (Some pre) (Some m)) = Ret (Ready (Some (Ok pre)), ?b)"
    by (simp add: poll_next_def body_new_def)
  ultimately show ?thesis using fuel(1) by (auto split: if_splits)
qed

theorem overrun_crashes_consumer_witness:
  "(\<exists>p. read_body False 9 (body_new (replicate 4096 0)
      \<lparr>arrivals = [Ok [1], Ok [2, 3], Ok []], answers = [], sent = []\<rparr> (Some [9]) (Some 2)) = Some (Panic p)) \<and>
   (\<exists>b'. read_body False 9 (body_new (replicate 4096 0)
      \<lparr>arrivals = [Ok [1], Ok [2, 3], Ok []], answers = [], sent = []\<rparr> (Some [9]) (Some 1)) =
      Some (Ret ([9, 1], Eof, b')))"
proof
  have ps: "arrivals \<lparr>arrivals = [Ok [1], Ok [2, 3], Ok []], answers = [], sent = []\<rparr> =
      map Ok [[1], [2, 3 :: byte]] @ Ok [] # []" by simp
  note overrun = overrun_crashes_consumer[OF _ _ ps, of "replicate 4096 0" _ 9 False "[9]"]
  have "length (concat (take k [[1], [2, 3 :: byte]])) \<noteq> 2" for k
    by (cases k; cases "k - 1") auto
  with overrun[of 2] show "\<exists>p. read_body False 9 (body_new (replicate 4096 0)
      \<lparr>arrivals = [Ok [1], Ok [2, 3], Ok []], answers = [], sent = []\<rparr> (Some [9]) (Some 2)) = Some (Panic p)"
    by (simp add: usize_size_def)
  have "\<exists>k. length (concat (take k [[1], [2, 3 :: byte]])) = 1" by (rule exI[of _ 1]) simp
  with overrun[of 1] show "\<exists>b'. read_body False 9 (body_new (replicate 4096 0)
      \<lparr>arrivals = [Ok [1], Ok [2, 3], Ok []], answers = [], sent = []\<rparr> (Some [9]) (Some 1)) =
      Some (Ret ([9, 1], Eof, b'))"
    by (simp add: usize_size_def)
qed

end
