(* ===== verification/Response.thy ===== *)
theory Response
  imports Http_Prelude
begin

text \<open>
  The response and its header map, \<open>src/src/response.rs\<close>. A \<open>HashMap<String, Vec<String>>\<close>
  is a map from names to lists of values. \<open>header_map_push\<close> is the body of the loop in
  \<open>HeaderMap::new\<close>. The locale \<open>multimap\<close> is the contract of a map that keeps every value
  of a name in the order of insertion; the header map is an instance of it.
  \<open>StatusCode::from_u16\<close> belongs to the \<open>http\<close> crate and is an argument.
\<close>

section \<open>The header map\<close>

record header_map =
  hm_map :: "rstr \<rightharpoonup> rstr list"

definition header_map_push :: "(rstr \<rightharpoonup> rstr list) \<Rightarrow> rstr \<times> rstr \<Rightarrow> (rstr \<rightharpoonup> rstr list)" where
  "header_map_push m kv =
     (case kv of (k, v) \<Rightarrow>
        (case m k of
           Some vec \<Rightarrow> m(k \<mapsto> vec @ [v])
         | None \<Rightarrow> m(k \<mapsto> [v])))"

definition header_map_new :: "(rstr \<times> rstr) list \<Rightarrow> header_map" where
  "header_map_new vec = \<lparr>hm_map = foldl header_map_push Map.empty vec\<rparr>"

definition header_map_get :: "header_map \<Rightarrow> rstr \<Rightarrow> rstr option" where
  "header_map_get hm name = Option.bind (hm_map hm name) (\<lambda>val. slice_get val 0)"

section \<open>The response\<close>

record ('sc, 'b) response =
  rs_status_code :: 'sc
  rs_headers :: header_map
  rs_body :: 'b

definition response_new ::
    "(u16 \<Rightarrow> 'sc option) \<Rightarrow> u16 \<Rightarrow> (rstr \<times> rstr) list \<Rightarrow> 'b \<Rightarrow> ('sc, 'b) response outcome" where
  "response_new from_u16 status_code headers body =
     obind (unwrap UnwrapNone (from_u16 status_code)) (\<lambda>sc.
       Ret \<lparr>rs_status_code = sc, rs_headers = header_map_new headers, rs_body = body\<rparr>)"

definition response_headers :: "('sc, 'b) response \<Rightarrow> header_map" where
  "response_headers r = rs_headers r"

definition response_status :: "('sc, 'b) response \<Rightarrow> 'sc" where
  "response_status r = rs_status_code r"

definition into_body :: "('sc, 'b) response \<Rightarrow> 'b" where
  "into_body r = rs_body r"

section \<open>The contract of a multimap\<close>

locale multimap =
  fixes emp :: 'm
    and push :: "'m \<Rightarrow> 'k \<times> 'v \<Rightarrow> 'm"
    and vals :: "'m \<Rightarrow> 'k \<Rightarrow> 'v list"
  assumes vals_emp: "vals emp k = []"
    and vals_push: "vals (push m (k, v)) k' = (if k' = k then vals m k @ [v] else vals m k')"
begin

lemma vals_foldl:
  "vals (foldl push m kvs) k = vals m k @ map snd (filter (\<lambda>kv. fst kv = k) kvs)"
proof (induction kvs arbitrary: m)
  case (Cons kv kvs)
  then show ?case by (cases kv) (simp add: vals_push)
qed simp

lemma vals_build: "vals (foldl push emp kvs) k = map snd (filter (\<lambda>kv. fst kv = k) kvs)"
  by (simp add: vals_foldl vals_emp)

lemma first_build: "slice_get (vals (foldl push emp kvs) k) 0 = map_of kvs k"
  unfolding vals_build by (induction kvs) (auto simp: slice_get_def)

end

definition header_values :: "(rstr \<rightharpoonup> rstr list) \<Rightarrow> rstr \<Rightarrow> rstr list" where
  "header_values m k = (case m k of None \<Rightarrow> [] | Some vs \<Rightarrow> vs)"

interpretation hm: multimap Map.empty header_map_push header_values
  by unfold_locales (auto simp: header_map_push_def header_values_def split: option.splits)

section \<open>Lookups\<close>

text \<open>A present name has at least one value.\<close>

lemma header_map_nonempty: "hm_map (header_map_new vec) k \<noteq> Some []"
proof -
  have "foldl header_map_push m vec k \<noteq> Some []" if "\<And>k. m k \<noteq> Some []" for m
    using that
  proof (induction vec arbitrary: m)
    case (Cons kv vec)
    then show ?case by (cases kv) (auto simp: header_map_push_def split: option.splits)
  qed simp
  then show ?thesis by (simp add: header_map_new_def)
qed

lemma header_map_new_lookup:
  "hm_map (header_map_new vec) k =
     (let vs = map snd (filter (\<lambda>kv. fst kv = k) vec) in if vs = [] then None else Some vs)"
  using hm.vals_build[of vec k] header_map_nonempty[of vec k]
  by (auto simp: header_map_new_def header_values_def Let_def split: option.splits)

lemma header_map_get_map_of: "header_map_get (header_map_new vec) name = map_of vec name"
proof -
  have "header_map_get (header_map_new vec) name =
      slice_get (header_values (foldl header_map_push Map.empty vec) name) 0"
    by (simp add: header_map_get_def header_map_new_def header_values_def slice_get_def
        split: option.splits)
  then show ?thesis using hm.first_build by simp
qed

section \<open>Properties\<close>

text \<open>
  (C33) No value is lost in the header map: under a name it keeps all the values of that name
  in the order in which they arrived, and it has no entry for any other name; a lookup
  returns the first of them.
\<close>

theorem header_map_keeps_all_values:
  "hm_map (header_map_new vec) k =
     (let vs = map snd (filter (\<lambda>kv. fst kv = k) vec) in if vs = [] then None else Some vs) \<and>
   header_map_get (header_map_new vec) k = map_of vec k"
  by (simp add: header_map_new_lookup header_map_get_map_of)

end
