(* ===== verification/Request.thy ===== *)
theory Request
  imports Http_Prelude
begin

text \<open>
  Requests and their builder, \<open>src/src/request.rs\<close>. The method, version and URI types
  belong to other crates and are type variables; their default values and the constant
  \<open>Version::HTTP_10\<close> are arguments. The body type is a type variable too.
  \<open>builder_op\<close> names the calls a client can chain on a builder.
\<close>

section \<open>Data\<close>

record ('m, 'v, 'u, 'b) request =
  rq_method :: 'm
  rq_version :: 'v
  rq_uri :: 'u
  rq_headers :: "(rstr \<times> rstr) list"
  rq_body :: "'b option"

record ('m, 'v, 'u) request_builder =
  rb_method :: 'm
  rb_version :: 'v
  rb_uri :: 'u
  rb_headers :: "(rstr \<times> rstr) list"

section \<open>Operations\<close>

definition request_new :: "'v \<Rightarrow> 'm \<Rightarrow> 'u \<Rightarrow> ('m, 'v, 'u, 'b) request" where
  "request_new http_10 method uri =
     \<lparr>rq_method = method, rq_version = http_10, rq_uri = uri,
      rq_headers = [(lit ''User-Agent'', lit ''Simple http request'')], rq_body = None\<rparr>"

definition builder_default :: "'m \<Rightarrow> 'v \<Rightarrow> 'u \<Rightarrow> ('m, 'v, 'u) request_builder" where
  "builder_default dm dv du =
     \<lparr>rb_method = dm, rb_version = dv, rb_uri = du, rb_headers = []\<rparr>"

definition new_request_builder :: "'m \<Rightarrow> 'v \<Rightarrow> 'u \<Rightarrow> ('m, 'v, 'u) request_builder" where
  "new_request_builder dm dv du = builder_default dm dv du"

definition builder_done ::
    "('m, 'v, 'u) request_builder \<Rightarrow> ('m, 'v, 'u, 'b) request io_result" where
  "builder_done self =
     Ok \<lparr>rq_method = rb_method self, rq_version = rb_version self, rq_uri = rb_uri self,
         rq_headers = rb_headers self, rq_body = None\<rparr>"

definition builder_version ::
    "'v \<Rightarrow> ('m, 'v, 'u) request_builder \<Rightarrow> ('m, 'v, 'u) request_builder" where
  "builder_version version self = self\<lparr>rb_version := version\<rparr>"

definition builder_uri ::
    "'u \<Rightarrow> ('m, 'v, 'u) request_builder \<Rightarrow> ('m, 'v, 'u) request_builder" where
  "builder_uri uri self = self\<lparr>rb_uri := uri\<rparr>"

definition builder_header ::
    "rstr \<Rightarrow> rstr \<Rightarrow> ('m, 'v, 'u) request_builder \<Rightarrow> ('m, 'v, 'u) request_builder" where
  "builder_header name val self = self\<lparr>rb_headers := rb_headers self @ [(name, val)]\<rparr>"

definition builder_body ::
    "'b \<Rightarrow> ('m, 'v, 'u) request_builder \<Rightarrow> ('m, 'v, 'u, 'b) request io_result" where
  "builder_body body self =
     Ok \<lparr>rq_method = rb_method self, rq_version = rb_version self, rq_uri = rb_uri self,
         rq_headers = rb_headers self, rq_body = Some body\<rparr>"

section \<open>Chains of builder calls\<close>

datatype ('v, 'u) builder_op = SetVersion 'v | SetUri 'u | AddHeader rstr rstr

primrec builder_step ::
    "('m, 'v, 'u) request_builder \<Rightarrow> ('v, 'u) builder_op \<Rightarrow> ('m, 'v, 'u) request_builder" where
  "builder_step b (SetVersion v) = builder_version v b"
| "builder_step b (SetUri u) = builder_uri u b"
| "builder_step b (AddHeader n v) = builder_header n v b"

text \<open>What a chain of calls should amount to: the last version, the last URI, all headers.\<close>

fun chain_headers :: "('v, 'u) builder_op list \<Rightarrow> (rstr \<times> rstr) list" where
  "chain_headers [] = []"
| "chain_headers (AddHeader n v # ops) = (n, v) # chain_headers ops"
| "chain_headers (_ # ops) = chain_headers ops"

fun chain_uri :: "'u \<Rightarrow> ('v, 'u) builder_op list \<Rightarrow> 'u" where
  "chain_uri u [] = u"
| "chain_uri u (SetUri u' # ops) = chain_uri u' ops"
| "chain_uri u (_ # ops) = chain_uri u ops"

fun chain_version :: "'v \<Rightarrow> ('v, 'u) builder_op list \<Rightarrow> 'v" where
  "chain_version v [] = v"
| "chain_version v (SetVersion v' # ops) = chain_version v' ops"
| "chain_version v (_ # ops) = chain_version v ops"

lemmas builder_defs = builder_version_def builder_uri_def builder_header_def

lemma builder_chain:
  "foldl builder_step b ops =
     \<lparr>rb_method = rb_method b, rb_version = chain_version (rb_version b) ops,
      rb_uri = chain_uri (rb_uri b) ops, rb_headers = rb_headers b @ chain_headers ops\<rparr>"
proof (induction ops arbitrary: b)
  case (Cons op ops)
  then show ?case by (cases op) (simp_all add: builder_defs)
qed simp

section \<open>Properties\<close>

text \<open>
  (C34) A request is what its builder was told: after any chain of calls, \<open>body\<close> gives a
  request with the last URI and the last version set, all the headers in the order they were
  added, and the given body; the method is the default one, since no call changes it.
\<close>

theorem builder_builds_request:
  "builder_body body (foldl builder_step (builder_default dm dv du) ops) =
     Ok \<lparr>rq_method = dm, rq_version = chain_version dv ops, rq_uri = chain_uri du ops,
         rq_headers = chain_headers ops, rq_body = Some body\<rparr>"
  by (simp add: builder_chain builder_body_def builder_default_def)

end
