(* ===== verification/Destination.thy ===== *)
theory Destination
  imports Rust_Std
begin

text \<open>
  The destination of a connection, \<open>src/src/connect.rs\<close>. The URI type and its parts belong
  to the \<open>http\<close> crate: \<open>uri_api\<close> is the record of the operations the crate calls on them,
  an argument of every definition here, and \<open>uri_api_ok\<close> states the documented behaviour
  that the properties rely on.
\<close>

section \<open>The operations of the URI type\<close>

record ('s, 'a, 'q) uri_parts =
  p_scheme :: "'s option"
  p_authority :: "'a option"
  p_path_and_query :: 'q

record ('u, 's, 'a, 'q) uri_api =
  scheme_part :: "'u \<Rightarrow> 's option"
  uri_host :: "'u \<Rightarrow> rstr option"
  port_u16 :: "'u \<Rightarrow> u16 option"
  path_and_query :: "'u \<Rightarrow> rstr option"
  uri_default :: 'u
  into_parts :: "'u \<Rightarrow> ('s, 'a, 'q) uri_parts"
  from_parts :: "('s, 'a, 'q) uri_parts \<Rightarrow> 'u option"
  scheme_as_str :: "'s \<Rightarrow> rstr"
  scheme_parse :: "rstr \<Rightarrow> 's option"
  scheme_eq :: "'s \<Rightarrow> 's \<Rightarrow> bool"
  scheme_HTTP :: 's
  scheme_HTTPS :: 's
  authority_from_shared :: "bytes \<Rightarrow> 'a option"
  authority_from_str :: "rstr \<Rightarrow> 'a option"
  authority_host :: "'a \<Rightarrow> rstr"
  authority_port :: "'a \<Rightarrow> u16 option"

section \<open>The destination\<close>

datatype connect_error = Parse

record 'u destination =
  dst_uri :: 'u

definition dst_scheme :: "('u, 's, 'a, 'q) uri_api \<Rightarrow> 'u destination \<Rightarrow> rstr" where
  "dst_scheme A dst =
     (case map_option (scheme_as_str A) (scheme_part A (dst_uri dst)) of
        Some s \<Rightarrow> s | None \<Rightarrow> lit '''')"

definition dst_host :: "('u, 's, 'a, 'q) uri_api \<Rightarrow> 'u destination \<Rightarrow> rstr" where
  "dst_host A dst = (case uri_host A (dst_uri dst) of Some h \<Rightarrow> h | None \<Rightarrow> lit '''')"

definition dst_port :: "('u, 's, 'a, 'q) uri_api \<Rightarrow> 'u destination \<Rightarrow> u16 option" where
  "dst_port A dst = port_u16 A (dst_uri dst)"

definition update_uri ::
    "('u, 's, 'a, 'q) uri_api \<Rightarrow> (('s, 'a, 'q) uri_parts \<Rightarrow> ('s, 'a, 'q) uri_parts) \<Rightarrow>
     'u destination \<Rightarrow> (connect_error + unit) \<times> 'u destination" where
  "update_uri A f dst =
     (let old_uri = dst_uri dst;
          dst = dst\<lparr>dst_uri := uri_default A\<rparr>;
          parts = f (into_parts A old_uri) in
      case from_parts A parts of
        Some uri \<Rightarrow> (Ok (), dst\<lparr>dst_uri := uri\<rparr>)
      | None \<Rightarrow> (Err Parse, dst\<lparr>dst_uri := old_uri\<rparr>))"

definition set_scheme ::
    "('u, 's, 'a, 'q) uri_api \<Rightarrow> rstr \<Rightarrow> 'u destination \<Rightarrow>
     (connect_error + unit) \<times> 'u destination" where
  "set_scheme A scheme dst =
     (case scheme_parse A scheme of
        None \<Rightarrow> (Err Parse, dst)
      | Some s \<Rightarrow> update_uri A (\<lambda>parts. parts\<lparr>p_scheme := Some s\<rparr>) dst)"

abbreviation AT :: byte where "AT \<equiv> 64"

definition host_port :: "rstr \<Rightarrow> u16 \<Rightarrow> bytes" where
  "host_port host port = host @ [COLON] @ show_nat (unat port)"

definition set_host ::
    "('u, 's, 'a, 'q) uri_api \<Rightarrow> rstr \<Rightarrow> 'u destination \<Rightarrow>
     (connect_error + unit) \<times> 'u destination" where
  "set_host A host dst =
     (if AT \<in> set host then (Err Parse, dst)
      else case dst_port A dst of
        Some port \<Rightarrow>
          (case authority_from_shared A (host_port host port) of
             None \<Rightarrow> (Err Parse, dst)
           | Some auth \<Rightarrow> update_uri A (\<lambda>parts. parts\<lparr>p_authority := Some auth\<rparr>) dst)
      | None \<Rightarrow>
          (case authority_from_str A host of
             None \<Rightarrow> (Err Parse, dst)
           | Some auth \<Rightarrow>
               if authority_port A auth \<noteq> None then (Err Parse, dst)
               else update_uri A (\<lambda>parts. parts\<lparr>p_authority := Some auth\<rparr>) dst))"

definition set_port_opt ::
    "('u, 's, 'a, 'q) uri_api \<Rightarrow> u16 option \<Rightarrow> 'u destination \<Rightarrow> 'u destination outcome" where
  "set_port_opt A port dst =
     obind
       (case port of
          Some port \<Rightarrow>
            unwrap (PanicMsg ''valid host + :port should be valid authority'')
              (authority_from_shared A (host_port (dst_host A dst) port))
        | None \<Rightarrow>
            unwrap (PanicMsg ''valid host without port should be valid authority'')
              (authority_from_str A (dst_host A dst)))
       (\<lambda>auth.
         case update_uri A (\<lambda>parts. parts\<lparr>p_authority := Some auth\<rparr>) dst of
           (Ok _, dst') \<Rightarrow> Ret dst'
         | (Err _, dst') \<Rightarrow> Panic (PanicMsg ''valid uri should be valid with port''))"

definition set_port ::
    "('u, 's, 'a, 'q) uri_api \<Rightarrow> u16 option \<Rightarrow> 'u destination \<Rightarrow> 'u destination outcome" where
  "set_port A port dst = set_port_opt A port dst"

section \<open>The documented behaviour of the URI type\<close>

text \<open>
  The parts of a URI are what its accessors return, also for a URI built from parts; a URI built
  with the scheme and the path part of another has its path and query; and \<open>host\<close> or
  \<open>host:port\<close> without user information parses into these two pieces.
\<close>

definition parts_agree :: "('u, 's, 'a, 'q) uri_api \<Rightarrow> 'u \<Rightarrow> ('s, 'a, 'q) uri_parts \<Rightarrow> bool" where
  "parts_agree A u p \<longleftrightarrow>
     scheme_part A u = p_scheme p \<and>
     uri_host A u = map_option (authority_host A) (p_authority p) \<and>
     port_u16 A u = Option.bind (p_authority p) (authority_port A)"

definition plain_host :: "rstr \<Rightarrow> bool" where
  "plain_host h \<longleftrightarrow> h \<noteq> [] \<and> AT \<notin> set h \<and> COLON \<notin> set h"

definition uri_api_ok :: "('u, 's, 'a, 'q) uri_api \<Rightarrow> bool" where
  "uri_api_ok A \<longleftrightarrow>
     (\<forall>u. parts_agree A u (into_parts A u)) \<and>
     (\<forall>p u. from_parts A p = Some u \<longrightarrow> parts_agree A u p) \<and>
     (\<forall>p u v. from_parts A p = Some u \<longrightarrow> p_scheme p = p_scheme (into_parts A v) \<longrightarrow>
        p_path_and_query p = p_path_and_query (into_parts A v) \<longrightarrow> path_and_query A u = path_and_query A v) \<and>
     (\<forall>h port a. plain_host h \<longrightarrow> authority_from_shared A (host_port h port) = Some a \<longrightarrow>
        authority_host A a = h \<and> authority_port A a = Some port) \<and>
     (\<forall>h a. plain_host h \<longrightarrow> authority_from_str A h = Some a \<longrightarrow>
        authority_host A a = h \<and> authority_port A a = None)"

text \<open>A URI with a scheme has an authority: \<open>from_parts\<close> reports \<open>AuthorityMissing\<close> otherwise.\<close>

definition scheme_needs_authority :: "('u, 's, 'a, 'q) uri_api \<Rightarrow> bool" where
  "scheme_needs_authority A \<longleftrightarrow> (\<forall>p. p_scheme p \<noteq> None \<longrightarrow> p_authority p = None \<longrightarrow> from_parts A p = None)"

lemma uri_api_okD:
  assumes "uri_api_ok A"
  shows "parts_agree A u (into_parts A u)"
    and "from_parts A p = Some u \<Longrightarrow> parts_agree A u p"
    and "plain_host h \<Longrightarrow> authority_from_shared A (host_port h port) = Some a \<Longrightarrow>
      authority_host A a = h \<and> authority_port A a = Some port"
    and "plain_host h \<Longrightarrow> authority_from_str A h = Some a \<Longrightarrow>
      authority_host A a = h \<and> authority_port A a = None"
    and "from_parts A p = Some u \<Longrightarrow> p_scheme p = p_scheme (into_parts A v) \<Longrightarrow>
      p_path_and_query p = p_path_and_query (into_parts A v) \<Longrightarrow> path_and_query A u = path_and_query A v"
  using assms by (auto simp: uri_api_ok_def)

section \<open>Updates are transactions\<close>

lemmas dst_defs = dst_scheme_def dst_host_def dst_port_def

lemma destination_surj [simp]: "dst\<lparr>dst_uri := dst_uri dst\<rparr> = dst"
  by simp

lemma update_uri_Err: "update_uri A f dst = (Err e, dst') \<Longrightarrow> dst' = dst"
  by (auto simp: update_uri_def Let_def split: option.splits)

lemma update_uri_Ok:
  "update_uri A f dst = (Ok (), dst') \<Longrightarrow>
   from_parts A (f (into_parts A (dst_uri dst))) = Some (dst_uri dst')"
  by (auto simp: update_uri_def Let_def split: option.splits)

lemma set_scheme_Err: "set_scheme A s dst = (Err e, dst') \<Longrightarrow> dst' = dst"
  by (auto simp: set_scheme_def dest: update_uri_Err split: option.splits)

lemma set_host_Err: "set_host A h dst = (Err e, dst') \<Longrightarrow> dst' = dst"
  by (auto simp: set_host_def dest: update_uri_Err split: option.splits if_splits)

lemma update_scheme:
  assumes "uri_api_ok A"
    and "update_uri A (\<lambda>parts. parts\<lparr>p_scheme := Some s\<rparr>) dst = (Ok (), dst')"
  shows "scheme_part A (dst_uri dst') = Some s \<and> uri_host A (dst_uri dst') = uri_host A (dst_uri dst) \<and>
    port_u16 A (dst_uri dst') = port_u16 A (dst_uri dst)"
  using uri_api_okD(1)[OF assms(1), of "dst_uri dst"]
    uri_api_okD(2)[OF assms(1) update_uri_Ok[OF assms(2)]]
  by (simp add: parts_agree_def)

lemma update_authority:
  assumes "uri_api_ok A"
    and "update_uri A (\<lambda>parts. parts\<lparr>p_authority := Some a\<rparr>) dst = (Ok (), dst')"
  shows "scheme_part A (dst_uri dst') = scheme_part A (dst_uri dst) \<and>
    uri_host A (dst_uri dst') = Some (authority_host A a) \<and>
    port_u16 A (dst_uri dst') = authority_port A a \<and>
    path_and_query A (dst_uri dst') = path_and_query A (dst_uri dst)"
  using uri_api_okD(1)[OF assms(1), of "dst_uri dst"]
    uri_api_okD(2)[OF assms(1) update_uri_Ok[OF assms(2)]]
    uri_api_okD(5)[OF assms(1) update_uri_Ok[OF assms(2)], of "dst_uri dst"]
  by (simp add: parts_agree_def)

lemma set_scheme_Ok:
  assumes "uri_api_ok A" and "set_scheme A s dst = (Ok (), dst')"
  shows "\<exists>sch. scheme_parse A s = Some sch \<and> scheme_part A (dst_uri dst') = Some sch \<and>
    uri_host A (dst_uri dst') = uri_host A (dst_uri dst) \<and>
    port_u16 A (dst_uri dst') = port_u16 A (dst_uri dst)"
  using assms update_scheme[OF assms(1)]
  by (auto simp: set_scheme_def split: option.splits)

lemma set_scheme_host:
  assumes "uri_api_ok A" and "scheme_needs_authority A" and "set_scheme A s dst = (Ok (), dst')"
  shows "uri_host A (dst_uri dst) \<noteq> None"
proof -
  obtain sc where "from_parts A ((into_parts A (dst_uri dst))\<lparr>p_scheme := Some sc\<rparr>) \<noteq> None"
    using assms(3) by (auto simp: set_scheme_def update_uri_def Let_def split: option.splits)
  with assms(2)[unfolded scheme_needs_authority_def, rule_format,
      of "(into_parts A (dst_uri dst))\<lparr>p_scheme := Some sc\<rparr>"]
  have "p_authority (into_parts A (dst_uri dst)) \<noteq> None" by auto
  with uri_api_okD(1)[OF assms(1), of "dst_uri dst"] show ?thesis by (auto simp: parts_agree_def)
qed

lemma set_host_keeps:
  assumes "uri_api_ok A" and "set_host A h dst = (Ok (), dst')"
  shows "scheme_part A (dst_uri dst') = scheme_part A (dst_uri dst) \<and>
    path_and_query A (dst_uri dst') = path_and_query A (dst_uri dst) \<and>
    (port_u16 A (dst_uri dst) = None \<longrightarrow> port_u16 A (dst_uri dst') = None)"
  using assms update_authority[OF assms(1)]
  by (fastforce simp: set_host_def dst_port_def split: option.splits if_splits)

lemma set_host_Ok:
  assumes "uri_api_ok A" and "set_host A h dst = (Ok (), dst')" and "plain_host h"
  shows "uri_host A (dst_uri dst') = Some h \<and>
    port_u16 A (dst_uri dst') = port_u16 A (dst_uri dst) \<and>
    scheme_part A (dst_uri dst') = scheme_part A (dst_uri dst)"
  using assms update_authority[OF assms(1)] uri_api_okD(3,4)[OF assms(1,3)]
  by (fastforce simp: set_host_def dst_port_def split: option.splits if_splits)

lemma expect_update:
  "(case r of (Ok _, d) \<Rightarrow> Ret d | (Err _, d) \<Rightarrow> Panic p) = Ret d' \<longleftrightarrow> r = (Ok (), d')"
  by (auto split: prod.splits sum.splits)

lemma set_port_Ret:
  assumes "uri_api_ok A" and "set_port A port dst = Ret dst'"
    and "uri_host A (dst_uri dst) = Some h" and "plain_host h"
  shows "uri_host A (dst_uri dst') = Some h \<and> port_u16 A (dst_uri dst') = port \<and>
    scheme_part A (dst_uri dst') = scheme_part A (dst_uri dst) \<and>
    path_and_query A (dst_uri dst') = path_and_query A (dst_uri dst)"
proof -
  have h: "dst_host A dst = h" using assms(3) by (simp add: dst_host_def)
  obtain a where a: "authority_host A a = h" "authority_port A a = port"
    and up: "update_uri A (\<lambda>parts. parts\<lparr>p_authority := Some a\<rparr>) dst = (Ok (), dst')"
  proof (cases port)
    case None
    with assms(2) h obtain a where "authority_from_str A h = Some a"
      and "update_uri A (\<lambda>parts. parts\<lparr>p_authority := Some a\<rparr>) dst = (Ok (), dst')"
      by (auto simp: set_port_def set_port_opt_def obind_eq_Ret_iff expect_update)
    with uri_api_okD(4)[OF assms(1,4)] None that show thesis by blast
  next
    case (Some p)
    with assms(2) h obtain a where "authority_from_shared A (host_port h p) = Some a"
      and "update_uri A (\<lambda>parts. parts\<lparr>p_authority := Some a\<rparr>) dst = (Ok (), dst')"
      by (auto simp: set_port_def set_port_opt_def obind_eq_Ret_iff expect_update)
    with uri_api_okD(3)[OF assms(1,4)] Some that show thesis by blast
  qed
  from update_authority[OF assms(1) up] a show ?thesis by simp
qed

text \<open>A host that the URI type accepts as the authority of a given URI, with any port or none.\<close>

definition accepts_authority :: "('u, 's, 'a, 'q) uri_api \<Rightarrow> rstr \<Rightarrow> 'u \<Rightarrow> bool" where
  "accepts_authority A h u \<longleftrightarrow>
     (\<forall>port. authority_from_shared A (host_port h port) \<noteq> None) \<and> authority_from_str A h \<noteq> None \<and>
     (\<forall>a. from_parts A ((into_parts A u)\<lparr>p_authority := Some a\<rparr>) \<noteq> None)"

lemma set_port_returns:
  assumes "uri_host A (dst_uri dst) = Some h" and "accepts_authority A h (dst_uri dst)"
  shows "\<exists>dst'. set_port A port dst = Ret dst'"
proof -
  have up: "\<exists>dst'. update_uri A (\<lambda>parts. parts\<lparr>p_authority := Some a\<rparr>) dst = (Ok (), dst')" for a
  proof -
    obtain u where "from_parts A ((into_parts A (dst_uri dst))\<lparr>p_authority := Some a\<rparr>) = Some u"
      using assms(2) by (auto simp: accepts_authority_def)
    then show ?thesis by (simp add: update_uri_def Let_def)
  qed
  have h: "dst_host A dst = h" using assms(1) by (simp add: dst_host_def)
  show ?thesis
  proof (cases port)
    case None
    obtain a where "authority_from_str A h = Some a"
      using assms(2) by (auto simp: accepts_authority_def)
    with None h up[of a] show ?thesis by (auto simp: set_port_def set_port_opt_def)
  next
    case (Some p)
    obtain a where "authority_from_shared A (host_port h p) = Some a"
      using assms(2) by (auto simp: accepts_authority_def)
    with Some h up[of a] show ?thesis by (auto simp: set_port_def set_port_opt_def)
  qed
qed

section \<open>An instance of the URI type\<close>

text \<open>
  URIs that are their own parts: a scheme, a host with an optional port, a path. It has the
  documented behaviour, so that the hypotheses on the URI type can be met.
\<close>

type_synonym sample_uri = "(rstr, rstr \<times> u16 option, rstr option) uri_parts"

definition sample_authority :: "bytes \<Rightarrow> (rstr \<times> u16 option) option" where
  "sample_authority bs =
     (let host = takeWhile (\<lambda>b. b \<noteq> COLON) bs in
      case dropWhile (\<lambda>b. b \<noteq> COLON) bs of
        [] \<Rightarrow> Some (host, None)
      | _ # digits \<Rightarrow>
          (case parse_usize digits of
             Some n \<Rightarrow> if n < 65536 then Some (host, Some (of_nat n)) else None
           | None \<Rightarrow> None))"

definition sample_api :: "(sample_uri, rstr, rstr \<times> u16 option, rstr option) uri_api" where
  "sample_api =
     \<lparr>scheme_part = p_scheme, uri_host = (\<lambda>u. map_option fst (p_authority u)),
      port_u16 = (\<lambda>u. Option.bind (p_authority u) snd), path_and_query = p_path_and_query,
      uri_default = \<lparr>p_scheme = None, p_authority = None, p_path_and_query = None\<rparr>,
      into_parts = id, from_parts = (\<lambda>p. if p_scheme p \<noteq> None \<and> p_authority p = None then None else Some p),
      scheme_as_str = id, scheme_parse = Some,
      scheme_eq = (=), scheme_HTTP = lit ''http'', scheme_HTTPS = lit ''https'',
      authority_from_shared = sample_authority, authority_from_str = sample_authority,
      authority_host = fst, authority_port = snd\<rparr>"

definition sample_dst :: "rstr \<Rightarrow> rstr \<Rightarrow> u16 option \<Rightarrow> sample_uri destination" where
  "sample_dst scheme host port =
     \<lparr>dst_uri = \<lparr>p_scheme = Some scheme, p_authority = Some (host, port), p_path_and_query = None\<rparr>\<rparr>"

lemma plain_host_whole: "plain_host h \<Longrightarrow> b \<in> set h \<Longrightarrow> b \<noteq> COLON"
  by (auto simp: plain_host_def)

lemma sample_authority_port:
  "plain_host h \<Longrightarrow> sample_authority (host_port h port) = Some (h, Some port)"
proof -
  assume h: "plain_host h"
  have "takeWhile (\<lambda>b. b \<noteq> COLON) (host_port h port) = h"
    and "dropWhile (\<lambda>b. b \<noteq> COLON) (host_port h port) = COLON # show_nat (unat port)"
    using plain_host_whole[OF h]
    by (simp_all add: host_port_def takeWhile_append dropWhile_append)
  moreover have small: "unat port < 65536" using unsigned_less[of port] by simp
  then have "parse_usize (show_nat (unat port)) = Some (unat port)"
    by (intro parse_usize_show) (simp add: usize_size_def)
  ultimately show ?thesis using small by (simp add: sample_authority_def)
qed

lemma sample_authority_plain: "plain_host h \<Longrightarrow> sample_authority h = Some (h, None)"
proof -
  assume h: "plain_host h"
  have "takeWhile (\<lambda>b. b \<noteq> COLON) h = h" and "dropWhile (\<lambda>b. b \<noteq> COLON) h = []"
    using plain_host_whole[OF h] by (simp_all add: takeWhile_eq_all_conv dropWhile_eq_Nil_conv)
  then show ?thesis unfolding sample_authority_def Let_def by (simp only: list.case)
qed

lemma sample_api_ok: "uri_api_ok sample_api" "scheme_needs_authority sample_api"
  by (auto simp: scheme_needs_authority_def uri_api_ok_def parts_agree_def sample_api_def sample_authority_port
      sample_authority_plain comp_def split: if_splits)

section \<open>Properties\<close>

text \<open>
  (C32) Changing the host of a destination is a transaction. A refused host, any text, leaves the
  destination as it was, and a host with user information is always refused. After an accepted
  one the scheme, the path and the query are what they were, and a destination without a port
  still has none; and if the host is a name or an IPv4 address (it has no colon), then it is now
  the host of the destination, and the port is what it was.
\<close>

theorem set_host_transaction:
  assumes "uri_api_ok A"
  shows "(case set_host A h dst of
       (Err e, dst') \<Rightarrow> dst' = dst
     | (Ok _, dst') \<Rightarrow>
         dst_scheme A dst' = dst_scheme A dst \<and>
         path_and_query A (dst_uri dst') = path_and_query A (dst_uri dst) \<and>
         (dst_port A dst = None \<longrightarrow> dst_port A dst' = None) \<and>
         (plain_host h \<longrightarrow> dst_host A dst' = h \<and> dst_port A dst' = dst_port A dst)) \<and>
     set_host A (pre @ [AT] @ post) dst = (Err Parse, dst)"
proof
  show "set_host A (pre @ [AT] @ post) dst = (Err Parse, dst)" by (simp add: set_host_def)
qed (use set_host_Ok[OF assms] set_host_keeps[OF assms] in
    \<open>auto simp: dst_defs split: prod.split sum.split dest!: set_host_Err\<close>)

text \<open>A destination with a path, before and after.\<close>

abbreviation sample_page_dst :: "rstr \<Rightarrow> sample_uri destination" where
  "sample_page_dst host \<equiv>
     \<lparr>dst_uri = \<lparr>p_scheme = Some (lit ''http''), p_authority = Some (host, Some 81),
        p_path_and_query = Some (lit ''/p?q'')\<rparr>\<rparr>"

theorem set_host_transaction_witness:
  "set_host sample_api (lit ''b'') (sample_page_dst (lit ''a'')) = (Ok (), sample_page_dst (lit ''b'')) \<and>
   dst_host sample_api (sample_page_dst (lit ''b'')) = lit ''b'' \<and>
   path_and_query sample_api (dst_uri (sample_page_dst (lit ''b''))) =
     path_and_query sample_api (dst_uri (sample_page_dst (lit ''a'')))"
proof -
  have h: "plain_host (lit ''b'')" by code_simp
  have eq: "set_host sample_api (lit ''b'') (sample_page_dst (lit ''a'')) = (Ok (), sample_page_dst (lit ''b''))"
    using sample_authority_port[OF h, of 81] h
    by (simp add: set_host_def dst_port_def sample_api_def update_uri_def plain_host_def)
  from set_host_transaction[where h="lit ''b''" and dst="sample_page_dst (lit ''a'')", OF sample_api_ok(1)] eq h
  show ?thesis by simp
qed

text \<open>
  Setting or removing the port succeeds and keeps everything else: for a destination
  with a plain host, which the URI type accepts as an authority with and without a port,
  \<open>set_port\<close> does not panic, the port is the new one, and scheme and host are unchanged.
\<close>

lemma set_port_keeps_rest:
  assumes "uri_api_ok A" and "uri_host A (dst_uri dst) = Some h" and "plain_host h"
    and "accepts_authority A h (dst_uri dst)"
  shows "\<exists>dst'. set_port A port dst = Ret dst' \<and> dst_port A dst' = port \<and>
    dst_host A dst' = dst_host A dst \<and> dst_scheme A dst' = dst_scheme A dst \<and>
    path_and_query A (dst_uri dst') = path_and_query A (dst_uri dst)"
proof -
  obtain dst' where r: "set_port A port dst = Ret dst'"
    using set_port_returns[OF assms(2,4)] by blast
  with set_port_Ret[OF assms(1) r assms(2,3)] assms(2) show ?thesis by (simp add: dst_defs)
qed

lemma set_port_keeps_rest_witness:
  "\<exists>dst'. set_port sample_api (Some 8080) (sample_dst (lit ''http'') (lit ''a'') None) = Ret dst' \<and>
    dst_port sample_api dst' = Some 8080 \<and>
    dst_host sample_api dst' = dst_host sample_api (sample_dst (lit ''http'') (lit ''a'') None) \<and>
    dst_scheme sample_api dst' = dst_scheme sample_api (sample_dst (lit ''http'') (lit ''a'') None) \<and>
    path_and_query sample_api (dst_uri dst') =
      path_and_query sample_api (dst_uri (sample_dst (lit ''http'') (lit ''a'') None))"
proof (rule set_port_keeps_rest[OF sample_api_ok(1)])
  show h: "plain_host (lit ''a'')" by code_simp
  show "accepts_authority sample_api (lit ''a'') (dst_uri (sample_dst (lit ''http'') (lit ''a'') None))"
    using sample_authority_port[OF h] sample_authority_plain[OF h]
    by (simp add: accepts_authority_def sample_api_def)
qed (simp add: sample_api_def sample_dst_def)

end
