(* ===== verification/Client.thy ===== *)
theory Client
  imports Httparse Body_Stream Response Request Destination
begin

text \<open>
  The client, \<open>src/src/lib.rs\<close>: building the request head (\<open>build_req\<close>), sending the body,
  reading the response head into the 4096 byte buffer (\<open>read_head\<close>), and the whole
  \<open>request\<close>. An \<open>await\<close> that never completes makes the whole call \<open>NotReady\<close>. The connector
  is an argument: what \<open>self.inner.connect\<close> answers for a destination. The connection is
  returned beside the result, so that what was sent can be observed.
\<close>

section \<open>The client and its builder\<close>

text \<open>A client is its connector; the builder only carries the connector's type.\<close>

record 'k client =
  cl_inner :: 'k

datatype client_builder_type = ClientBuilder

definition client_new :: "'k \<Rightarrow> 'k client" where
  "client_new inner = \<lparr>cl_inner = inner\<rparr>"

definition client_builder :: client_builder_type where
  "client_builder = ClientBuilder"

definition client_builder_build :: "client_builder_type \<Rightarrow> 'k \<Rightarrow> 'k client" where
  "client_builder_build self connector = client_new connector"

section \<open>The request head\<close>

fun push_headers :: "(rstr \<Rightarrow> rstr) \<Rightarrow> rstr \<Rightarrow> (rstr \<times> rstr) list \<Rightarrow> rstr" where
  "push_headers uni header [] = header"
| "push_headers uni header ((name, val) # hs) =
     (if to_lowercase uni name = lit ''host'' then push_headers uni header hs
      else push_headers uni (header @ name @ lit '': '' @ val @ CRLF) hs)"

definition build_req ::
    "('u, 's, 'a, 'q) uri_api \<Rightarrow> (rstr \<Rightarrow> rstr) \<Rightarrow> rstr \<Rightarrow> 'u \<Rightarrow> (rstr \<times> rstr) list \<Rightarrow> rstr outcome" where
  "build_req A uni method url headers =
     (let req = (case path_and_query A url of Some v \<Rightarrow> v | None \<Rightarrow> lit ''/'');
          header = method @ lit '' '' @ req @ lit '' HTTP/1.0'' @ CRLF @ lit ''Host: '' in
      obind (unwrap UnwrapNone (uri_host A url)) (\<lambda>host.
        let header = header @ host @ CRLF @ lit ''Connection: close'' @ CRLF in
        Ret (push_headers uni header headers @ CRLF)))"

section \<open>Sending the body\<close>

text \<open>The body is a stream of byte vectors or errors; a list is what it yields.\<close>

fun send_body :: "bytes io_result list \<Rightarrow> conn \<Rightarrow> unit io_poll \<times> conn" where
  "send_body [] c = (Ok (Ready ()), c)"
| "send_body (Err e # items) c = (Err e, c)"
| "send_body (Ok v # items) c =
     (case conn_write_all v c of
        (Ok (Ready _), c') \<Rightarrow> send_body items c'
      | (Ok NotReady, c') \<Rightarrow> (Ok NotReady, c')
      | (Err e, c') \<Rightarrow> (Err e, c'))"

section \<open>Receiving the head\<close>

type_synonym head = "u16 \<times> rstr \<times> (rstr \<times> rstr) list"

function header_loop :: "bool \<Rightarrow> (rstr \<Rightarrow> rstr) \<Rightarrow> header_iter \<Rightarrow> head \<Rightarrow> head io_result outcome" where
  "header_loop oc uni st hdr =
     obind (parse_headers_next oc st) (\<lambda>r.
       case r of
         (None, st') \<Rightarrow> Ret (Ok hdr)
       | (Some (Err _), st') \<Rightarrow> Ret (Err (IoError Other ''Parse header error''))
       | (Some (Ok (Status code r _)), st') \<Rightarrow>
           (case hdr of (_, _, headers) \<Rightarrow>
             header_loop oc uni st' (code, from_utf8_lossy r, headers))
       | (Some (Ok (Header name val)), st') \<Rightarrow>
           (case hdr of (status, reason, headers) \<Rightarrow>
             header_loop oc uni st'
               (status, reason,
                headers @ [(to_lowercase uni (from_utf8_lossy name), from_utf8_lossy val)])))"
  by pat_completeness auto
termination
  by (relation "measure (\<lambda>(oc, uni, st, hdr). length (hi_input st))")
    (auto dest: parse_headers_next_shrinks)

declare header_loop.simps [simp del]

definition head_capacity :: nat where
  "head_capacity = 4096"

function read_head ::
    "bool \<Rightarrow> (rstr \<Rightarrow> rstr) \<Rightarrow> bytes \<Rightarrow> conn \<Rightarrow> ((head \<times> bytes) io_poll \<times> conn) outcome" where
  "read_head oc uni acc c =
     (case conn_read (head_capacity - length acc) c of
        (Err e, c') \<Rightarrow> Ret (Err e, c')
      | (Ok NotReady, c') \<Rightarrow> Ret (Ok NotReady, c')
      | (Ok (Ready bs), c') \<Rightarrow>
          (if length bs = 0 then Ret (Err (IoError Other ''Broken headers''), c')
           else
             (let acc' = acc @ bs in
              case find_window (CRLF @ CRLF) acc' of
                Some i \<Rightarrow>
                  (let idx = i + 4 in
                   omap (\<lambda>res.
                     (case res of
                        Err e \<Rightarrow> Err e
                      | Ok hdr \<Rightarrow> Ok (Ready (hdr, drop idx acc')), c'))
                     (header_loop oc uni (parse_headers (take idx acc')) (0, [], [])))
              | None \<Rightarrow> read_head oc uni acc' c')))"
  by pat_completeness auto
termination
  by (relation "measure (\<lambda>(oc, uni, acc, c). head_capacity - length acc)")
    (auto dest!: conn_read_Ready[OF sym] simp: neq_Nil_conv)

declare read_head.simps [simp del]

fun find_content_length :: "(rstr \<times> rstr) list \<Rightarrow> usize option" where
  "find_content_length [] = None"
| "find_content_length ((k, v) # hs) =
     (case (if k = lit ''content-length'' then parse_usize v else None) of
        Some n \<Rightarrow> Some n
      | None \<Rightarrow> find_content_length hs)"

section \<open>The whole request\<close>

definition receive ::
    "bool \<Rightarrow> (rstr \<Rightarrow> rstr) \<Rightarrow> (u16 \<Rightarrow> 'sc option) \<Rightarrow> bytes \<Rightarrow> conn \<Rightarrow>
     (('sc, body) response io_poll \<times> conn) outcome" where
  "receive oc uni from_u16 uninit c =
     obind (read_head oc uni [] c) (\<lambda>r.
       case r of
         (Err e, c') \<Rightarrow> Ret (Err e, c')
       | (Ok NotReady, c') \<Rightarrow> Ret (Ok NotReady, c')
       | (Ok (Ready ((status, reason, headers), rest)), c') \<Rightarrow>
           omap (\<lambda>resp. (Ok (Ready resp), c'))
             (response_new from_u16 status headers
               (body_new uninit c' (Some rest) (find_content_length headers))))"

definition request ::
    "bool \<Rightarrow> ('u, 's, 'a, 'q) uri_api \<Rightarrow> (rstr \<Rightarrow> rstr) \<Rightarrow> ('m \<Rightarrow> rstr) \<Rightarrow> (u16 \<Rightarrow> 'sc option) \<Rightarrow>
     bytes \<Rightarrow> ('u destination \<Rightarrow> conn io_poll) \<Rightarrow> ('m, 'v, 'u, bytes io_result list) request \<Rightarrow>
     (('sc, body) response io_poll \<times> conn option) outcome" where
  "request oc A uni as_str from_u16 uninit connect req =
     (case connect \<lparr>dst_uri = rq_uri req\<rparr> of
        Err e \<Rightarrow> Ret (Err e, None)
      | Ok NotReady \<Rightarrow> Ret (Ok NotReady, None)
      | Ok (Ready c) \<Rightarrow>
        obind (build_req A uni (as_str (rq_method req)) (rq_uri req) (rq_headers req)) (\<lambda>header.
        case conn_write_all header c of
          (Err e, c) \<Rightarrow> Ret (Err e, Some c)
        | (Ok NotReady, c) \<Rightarrow> Ret (Ok NotReady, Some c)
        | (Ok (Ready _), c) \<Rightarrow>
          (case (case rq_body req of None \<Rightarrow> (Ok (Ready ()), c) | Some items \<Rightarrow> send_body items c) of
             (Err e, c) \<Rightarrow> Ret (Err e, Some c)
           | (Ok NotReady, c) \<Rightarrow> Ret (Ok NotReady, Some c)
           | (Ok (Ready _), c) \<Rightarrow>
             omap (\<lambda>(r, c). (r, Some c)) (receive oc uni from_u16 uninit c))))"

section \<open>The request head against its reference\<close>

lemma push_headers_append:
  "push_headers uni header hs =
     header @ concat (map (\<lambda>h. render_header h @ CRLF)
       (filter (\<lambda>h. to_lowercase uni (fst h) \<noteq> lit ''host'') hs))"
  by (induction uni header hs rule: push_headers.induct) (simp_all add: render_header_def)

definition request_line :: "('u, 's, 'a, 'q) uri_api \<Rightarrow> rstr \<Rightarrow> 'u \<Rightarrow> rstr" where
  "request_line A method url =
     method @ [SP] @ (case path_and_query A url of Some v \<Rightarrow> v | None \<Rightarrow> lit ''/'') @ lit '' HTTP/1.0''"

definition request_fields ::
    "(rstr \<Rightarrow> rstr) \<Rightarrow> rstr \<Rightarrow> (rstr \<times> rstr) list \<Rightarrow> (rstr \<times> rstr) list" where
  "request_fields uni host headers =
     (lit ''Host'', host) # (lit ''Connection'', lit ''close'') #
     filter (\<lambda>h. to_lowercase uni (fst h) \<noteq> lit ''host'') headers"

lemma build_req_reference:
  "build_req A uni method url headers =
     (case uri_host A url of
        None \<Rightarrow> Panic UnwrapNone
      | Some host \<Rightarrow>
          Ret (request_line A method url @ CRLF @
            concat (map (\<lambda>h. render_header h @ CRLF) (request_fields uni host headers)) @ CRLF))"
  by (simp add: build_req_def push_headers_append request_line_def request_fields_def
      render_header_def Let_def lit_def split: option.splits)

section \<open>The header loop\<close>

text \<open>What the loop does with one parsed item.\<close>

definition apply_item :: "(rstr \<Rightarrow> rstr) \<Rightarrow> head \<Rightarrow> header \<Rightarrow> head" where
  "apply_item uni hdr item =
     (case hdr of (status, reason, headers) \<Rightarrow>
        (case item of
           Status code r _ \<Rightarrow> (code, from_utf8_lossy r, headers)
         | Header name val \<Rightarrow>
             (status, reason,
              headers @ [(to_lowercase uni (from_utf8_lossy name), from_utf8_lossy val)])))"

lemma header_loop_step:
  "header_loop oc uni st hdr =
     obind (parse_headers_next oc st) (\<lambda>r.
       case r of
         (None, st') \<Rightarrow> Ret (Ok hdr)
       | (Some (Err _), st') \<Rightarrow> Ret (Err (IoError Other ''Parse header error''))
       | (Some (Ok item), st') \<Rightarrow> header_loop oc uni st' (apply_item uni hdr item))"
  by (subst header_loop.simps)
    (auto simp: apply_item_def intro!: obind_cong split: option.splits sum.splits header.splits prod.splits)

lemma header_loop_items:
  "header_items oc st = Ret (map Ok items) \<Longrightarrow>
   header_loop oc uni st hdr = Ret (Ok (foldl (apply_item uni) hdr items))"
proof (induction oc st arbitrary: items hdr rule: header_items.induct)
  case (1 oc st)
  from "1.prems" obtain r st' where nx: "parse_headers_next oc st = Ret (r, st')"
    by (cases "parse_headers_next oc st") (auto simp: header_items.simps[of oc st])
  show ?case
  proof (cases r)
    case None
    with "1.prems" nx show ?thesis
      by (simp add: header_items.simps[of oc st] header_loop_step[of oc uni st])
  next
    case (Some item)
    with "1.prems" nx obtain rest where rest: "header_items oc st' = Ret rest"
      and eq: "map Ok items = item # rest"
      by (auto simp: header_items.simps[of oc st] omap_eq_Ret_iff)
    then obtain i its where "items = i # its" "item = Ok i" "rest = map Ok its"
      by (cases items) auto
    with "1.IH"[OF nx _ Some, of st'] rest nx Some show ?thesis
      by (simp add: header_loop_step[of oc uni st])
  qed
qed

lemma foldl_apply_headers:
  "foldl (apply_item uni) (s, r, hs) (map (\<lambda>h. Header (f h) (g h)) fs) =
     (s, r, hs @ map (\<lambda>h. (to_lowercase uni (from_utf8_lossy (f h)), from_utf8_lossy (g h))) fs)"
  by (induction fs arbitrary: hs) (simp_all add: apply_item_def)

text \<open>The fields as the client stores them.\<close>

definition stored_fields :: "(rstr \<Rightarrow> rstr) \<Rightarrow> (bytes \<times> bytes) list \<Rightarrow> (rstr \<times> rstr) list" where
  "stored_fields uni hs =
     map (\<lambda>h. (to_lowercase uni (from_utf8_lossy (fst h)), from_utf8_lossy (before_colon (snd h)))) hs"

lemma header_loop_render:
  assumes "wf_status version code reason" and "list_all wf_field hs"
  shows "header_loop oc uni (parse_headers (render_head version code reason hs)) (0, [], []) =
    Ret (Ok (of_nat code, from_utf8_lossy version, stored_fields uni hs))"
proof -
  let ?items = "Status (of_nat code) version (takeWhile (\<lambda>b. b \<noteq> SP) reason) #
    map (\<lambda>h. Header (fst h) (before_colon (snd h))) hs"
  have "header_items oc (parse_headers (render_head version code reason hs)) = Ret (map Ok ?items)"
    using header_items_render[OF assms, of oc "[]"] by (simp add: comp_def)
  from header_loop_items[OF this] show ?thesis
    by (simp add: foldl_apply_headers stored_fields_def apply_item_def[of uni "(0, [], [])"])
qed

section \<open>Reading the head\<close>

abbreviation head_end :: bytes where "head_end \<equiv> CRLF @ CRLF"

lemma read_head_full:
  assumes "until_eof (arrivals c) = Some d" and "length acc = head_capacity"
  shows "\<exists>c'. read_head oc uni acc c = Ret (Err (IoError Other ''Broken headers''), c')"
proof -
  obtain bs as where "arrivals c = Ok bs # as"
    using assms(1) by (cases "arrivals c" rule: until_eof.cases) auto
  then show ?thesis
    using assms(2) by (subst read_head.simps) (auto simp: conn_read_def)
qed

lemma read_head_broken:
  assumes "until_eof (arrivals c) = Some d" and "length acc \<le> head_capacity"
    and "find_window head_end (take head_capacity (acc @ d)) = None"
  shows "\<exists>c'. read_head oc uni acc c = Ret (Err (IoError Other ''Broken headers''), c')"
  using assms
proof (induction oc uni acc c arbitrary: d rule: read_head.induct)
  case (1 oc uni acc c)
  show ?case
  proof (cases "length acc = head_capacity")
    case True
    with "1.prems" show ?thesis by (intro read_head_full)
  next
    case False
    with "1.prems"(2) have cap: "0 < head_capacity - length acc" by simp
    from conn_read_until_eof[OF "1.prems"(1) cap] obtain bs c' where
      cr: "conn_read (head_capacity - length acc) c = (Ok (Ready bs), c')"
      and ne: "bs \<noteq> [] \<longrightarrow> (\<exists>d'. until_eof (arrivals c') = Some d' \<and> d = bs @ d')" by blast
    show ?thesis
    proof (cases "bs = []")
      case True
      with cr show ?thesis by (subst read_head.simps) simp
    next
      case bs: False
      then obtain d' where d': "until_eof (arrivals c') = Some d'" "d = bs @ d'" using ne by blast
      have len: "length (acc @ bs) \<le> head_capacity" using conn_read_Ready[OF cr] "1.prems"(2) by auto
      then have "take head_capacity (acc @ d) = (acc @ bs) @ take (head_capacity - length (acc @ bs)) d'"
        using d' by simp
      with "1.prems"(3) have none: "find_window head_end (acc @ bs) = None"
        using find_window_prefix_None by metis
      have "\<exists>c''. read_head oc uni (acc @ bs) c' =
          Ret (Err (IoError Other ''Broken headers''), c'')"
        using "1.IH"[OF cr[symmetric] refl _ _ refl none, of d'] bs d' len "1.prems"(3) by simp
      with cr bs none show ?thesis by (subst read_head.simps) simp
    qed
  qed
qed

text \<open>What a number of reads leave of a connection.\<close>

definition later :: "conn \<Rightarrow> conn \<Rightarrow> bool" where
  "later c c' \<longleftrightarrow> answers c' = answers c \<and> sent c' = sent c \<and>
     arrival_bytes (arrivals c') \<le> arrival_bytes (arrivals c) \<and>
     arrival_work (arrivals c') \<le> arrival_work (arrivals c)"

lemma later_trans: "later c c' \<Longrightarrow> later c' c'' \<Longrightarrow> later c c''"
  by (auto simp: later_def)

lemma conn_read_later: "conn_read cap c = (Ok (Ready bs), c') \<Longrightarrow> bs \<noteq> [] \<Longrightarrow> later c c'"
  using conn_read_Ready[of cap c bs c']
  by (auto simp: later_def conn_read_def split: list.splits sum.splits if_splits)

text \<open>The two outcomes of a read that brought data.\<close>

lemma read_head_miss:
  "conn_read (head_capacity - length acc) c = (Ok (Ready bs), c') \<Longrightarrow> bs \<noteq> [] \<Longrightarrow>
   find_window head_end (acc @ bs) = None \<Longrightarrow>
   read_head oc uni acc c = read_head oc uni (acc @ bs) c'"
  by (subst read_head.simps) simp

lemma read_head_hit:
  "conn_read (head_capacity - length acc) c = (Ok (Ready bs), c') \<Longrightarrow> bs \<noteq> [] \<Longrightarrow>
   find_window head_end (acc @ bs) = Some i \<Longrightarrow>
   read_head oc uni acc c =
     omap (\<lambda>res. (case res of Err e \<Rightarrow> Err e | Ok hdr \<Rightarrow> Ok (Ready (hdr, drop (i + 4) (acc @ bs))), c'))
       (header_loop oc uni (parse_headers (take (i + 4) (acc @ bs))) (0, [], []))"
  by (subst read_head.simps) (simp add: Let_def)

lemma read_head_found:
  assumes "until_eof (arrivals c) = Some d" and "find_window head_end acc = None"
    and "find_window head_end (take head_capacity (acc @ d)) = Some i"
    and "length acc \<le> head_capacity"
  shows "\<exists>c' rest d'. read_head oc uni acc c =
      omap (\<lambda>res. (case res of Err e \<Rightarrow> Err e | Ok hdr \<Rightarrow> Ok (Ready (hdr, rest)), c'))
        (header_loop oc uni (parse_headers (take (i + 4) (acc @ d))) (0, [], [])) \<and>
      until_eof (arrivals c') = Some d' \<and> rest @ d' = drop (i + 4) (acc @ d) \<and> later c c'"
  using assms
proof (induction oc uni acc c arbitrary: d rule: read_head.induct)
  case (1 oc uni acc c)
  have cap: "0 < head_capacity - length acc"
    using "1.prems"(2-4) by (cases "length acc = head_capacity") auto
  from conn_read_until_eof[OF "1.prems"(1) cap] obtain bs c' where
    cr: "conn_read (head_capacity - length acc) c = (Ok (Ready bs), c')"
    and e: "bs = [] \<longrightarrow> d = []"
    and ne: "bs \<noteq> [] \<longrightarrow> (\<exists>d'. until_eof (arrivals c') = Some d' \<and> d = bs @ d')" by blast
  have bs: "bs \<noteq> []" using e "1.prems"(2,3,4) by auto
  then obtain d' where d': "until_eof (arrivals c') = Some d'" "d = bs @ d'" using ne by blast
  have len: "length (acc @ bs) \<le> head_capacity" using conn_read_Ready[OF cr] "1.prems"(4) by auto
  have lat: "later c c'" by (rule conn_read_later[OF cr bs])
  show ?case
  proof (cases "find_window head_end (acc @ bs)")
    case None
    from "1.IH"[OF cr[symmetric] refl _ _ refl None, of d'] bs d' len None "1.prems"(3)
    show ?thesis
      unfolding read_head_miss[OF cr bs None] using later_trans[OF lat] by fastforce
  next
    case (Some j)
    have "find_window head_end (take head_capacity (acc @ d)) = Some j"
      using find_window_append[OF Some] len d' by simp
    with "1.prems"(3) have j: "j = i" by simp
    have "i + 4 \<le> length (acc @ bs)" using find_window_bound[OF Some] j by simp
    then have tk: "take (i + 4) (acc @ d) = take (i + 4) (acc @ bs)"
      and dr: "drop (i + 4) (acc @ bs) @ d' = drop (i + 4) (acc @ d)"
      using d' by simp_all
    show ?thesis
      unfolding read_head_hit[OF cr bs Some] j tk using d'(1) dr lat by blast
  qed
qed

section \<open>Where a rendered head ends\<close>

lemma find_head_end_line:
  assumes "CR \<notin> set line" and "m \<noteq> CR"
  shows "find_window head_end (line @ CRLF @ m # ms) =
    map_option (\<lambda>k. k + length line + 2) (find_window head_end (m # ms))"
  using assms
proof (induction line)
  case Nil
  then show ?case by (cases "find_window head_end (m # ms)") auto
next
  case (Cons b line)
  then show ?case by (cases "find_window head_end (m # ms)") auto
qed

text \<open>A field without a carriage return in its name or value; both may be empty.\<close>

definition unbroken :: "bytes \<times> bytes \<Rightarrow> bool" where
  "unbroken h \<longleftrightarrow> CR \<notin> set (fst h) \<and> CR \<notin> set (snd h)"

lemma unbroken_line: "unbroken h \<Longrightarrow> CR \<notin> set (render_header h) \<and> render_header h \<noteq> []"
  by (auto simp: unbroken_def render_header_def lit_colon_space)

lemma wf_field_unbroken: "list_all wf_field hs \<Longrightarrow> list_all unbroken hs"
  by (auto simp: wf_field_def unbroken_def elim!: list.pred_mono_strong)

lemma find_head_end_fields:
  assumes "CR \<notin> set line" and "list_all unbroken hs"
  shows "find_window head_end (line @ CRLF @ concat (map (\<lambda>h. render_header h @ CRLF) hs) @ CRLF @ rest) =
    Some (length line + length (concat (map (\<lambda>h. render_header h @ CRLF) hs)))"
  using assms
proof (induction hs arbitrary: line)
  case Nil
  then show ?case
    using find_window_skip[of CR line head_end "[LF, CR, LF]" rest] by simp
next
  case (Cons h hs)
  then have h: "CR \<notin> set (render_header h)" "render_header h \<noteq> []"
    using unbroken_line by auto
  then obtain m ms where m: "render_header h = m # ms" "m \<noteq> CR" by (cases "render_header h") auto
  show ?case
    using Cons.IH[OF h(1)] Cons.prems m find_head_end_line[OF Cons.prems(1) m(2)] by simp
qed

lemma find_head_end:
  assumes "wf_status version code reason" and "list_all wf_field hs"
  shows "find_window head_end (render_head version code reason hs @ rest) =
    Some (length (render_head version code reason hs) - 4)"
  using find_head_end_fields[OF render_status_line[OF assms(1)] wf_field_unbroken[OF assms(2)], of rest]
  by (simp add: render_head_def)

lemma length_render_head: "4 \<le> length (render_head version code reason hs)"
  by (simp add: render_head_def)

lemma read_head_render:
  assumes "wf_status version code reason" and "list_all wf_field hs"
    and "length (render_head version code reason hs) \<le> head_capacity"
    and "until_eof (arrivals c) = Some (render_head version code reason hs @ data)"
  shows "\<exists>c' rest d'. read_head oc uni [] c =
      Ret (Ok (Ready ((of_nat code, from_utf8_lossy version, stored_fields uni hs), rest)), c') \<and>
      until_eof (arrivals c') = Some d' \<and> rest @ d' = data \<and> later c c'"
proof -
  let ?head = "render_head version code reason hs"
  have "take head_capacity (?head @ data) = ?head @ take (head_capacity - length ?head) data"
    using assms(3) by simp
  then have "find_window head_end (take head_capacity ([] @ ?head @ data)) = Some (length ?head - 4)"
    using find_head_end[OF assms(1,2)] by simp
  from read_head_found[OF assms(4) _ this, of oc uni] obtain c' rest d' where
    "read_head oc uni [] c =
      omap (\<lambda>res. (case res of Err e \<Rightarrow> Err e | Ok hdr \<Rightarrow> Ok (Ready (hdr, rest)), c'))
        (header_loop oc uni (parse_headers (take (length ?head - 4 + 4) (?head @ data))) (0, [], []))"
    "until_eof (arrivals c') = Some d'" "rest @ d' = drop (length ?head - 4 + 4) (?head @ data)"
    "later c c'"
    by auto
  with header_loop_render[OF assms(1,2), of oc uni] length_render_head[of version code reason hs]
  show ?thesis by auto
qed

section \<open>The status of a response\<close>

lemma next_item_header:
  assumes "parse_headers_next oc st = Ret (Some (Ok item), st')" and "hi_status_parsed st"
  obtains n v where "item = Header n v" and "hi_status_parsed st'"
proof (rule parse_headers_next_header[OF assms])
  fix line res
  assume "hi_status_parsed st'"
    and "Ok item = (case res of Err e \<Rightarrow> Err e | Ok (name, val) \<Rightarrow> Ok (Header name val))"
  with that show thesis by (auto split: sum.split_asm prod.split_asm)
qed

lemma next_item_status:
  assumes "parse_headers_next oc st = Ret (Some (Ok item), st')" and "\<not> hi_status_parsed st"
  obtains code v r where "item = Status code v r" and "100 \<le> unat code" and "unat code \<le> 599"
    and "hi_status_parsed st'"
proof (rule parse_headers_next_status[OF assms])
  fix line res
  assume "hi_status_parsed st'" and "parse_status line = Ret res"
    and "Ok item = (case res of Err e \<Rightarrow> Err e | Ok (s, v, r) \<Rightarrow> Ok (Status s v r))"
  with that parse_status_Ok_bounds show thesis by (auto split: sum.split_asm prod.split_asm)
qed

lemma header_loop_status:
  "header_loop oc uni st hdr = Ret (Ok hdr') \<Longrightarrow> hi_status_parsed st \<Longrightarrow> fst hdr' = fst hdr"
proof (induction oc st arbitrary: hdr rule: header_items.induct)
  case (1 oc st)
  then obtain r st' where nx: "parse_headers_next oc st = Ret (r, st')"
    by (auto simp: header_loop_step[of oc uni st] obind_eq_Ret_iff)
  consider "r = None" | item where "r = Some (Ok item)"
    using 1 nx by (cases r) (auto simp: header_loop_step[of oc uni st] split: sum.splits)
  then show ?case
  proof cases
    case 1
    with nx "1.prems" show ?thesis by (simp add: header_loop_step[of oc uni st])
  next
    case (2 item)
    obtain n v where "item = Header n v" "hi_status_parsed st'"
      by (rule next_item_header[OF nx[unfolded 2] "1.prems"(2)])
    with "1.IH"[OF nx _ 2, of st' "apply_item uni hdr item"] nx "1.prems"(1) 2
    show ?thesis by (cases hdr) (simp add: header_loop_step[of oc uni st] apply_item_def)
  qed
qed

lemma header_loop_status_bounds:
  assumes "header_loop oc uni (parse_headers input) hdr = Ret (Ok (status, reason, headers))"
    and "find_window CRLF input \<noteq> None"
  shows "100 \<le> unat status \<and> unat status \<le> 599"
proof -
  obtain r st' where nx: "parse_headers_next oc (parse_headers input) = Ret (r, st')"
    using assms(1) by (auto simp: header_loop_step[of oc uni "parse_headers input"] obind_eq_Ret_iff)
  have "r \<noteq> None"
    using assms(2) nx
    by (auto simp: parse_headers_next_def parse_headers_def Let_def obind_eq_Ret_iff omap_eq_Ret_iff
        split: option.splits)
  then obtain item where item: "r = Some (Ok item)"
    and loop: "header_loop oc uni st' (apply_item uni hdr item) = Ret (Ok (status, reason, headers))"
    using assms(1) nx
    by (auto simp: header_loop_step[of oc uni "parse_headers input"] split: sum.splits)
  obtain code v w where "item = Status code v w" "100 \<le> unat code" "unat code \<le> 599"
    "hi_status_parsed st'"
    by (rule next_item_status[OF nx[unfolded item]]) (simp add: parse_headers_def)
  with header_loop_status[OF loop] show ?thesis
    by (auto simp: apply_item_def split: prod.splits)
qed

section \<open>Sending\<close>

lemma conn_write_all_Ok:
  "answers c = Ok () # as \<Longrightarrow>
   conn_write_all bs c = (Ok (Ready ()), c\<lparr>answers := as, sent := sent c @ bs\<rparr>)"
  by (simp add: conn_write_all_def)

lemma send_body_all:
  "answers c = replicate (length vs) (Ok ()) @ as \<Longrightarrow>
   send_body (map Ok vs) c = (Ok (Ready ()), c\<lparr>answers := as, sent := sent c @ concat vs\<rparr>)"
  by (induction vs arbitrary: c) (simp_all add: conn_write_all_Ok)

text \<open>Everything a body yields before an error is on the wire, nothing after it.\<close>

lemma send_body_error:
  "answers c = replicate (length vs) (Ok ()) @ as \<Longrightarrow>
   send_body (map Ok vs @ Err e # items) c = (Err e, c\<lparr>answers := as, sent := sent c @ concat vs\<rparr>)"
  by (induction vs arbitrary: c) (simp_all add: conn_write_all_Ok)

section \<open>Receiving a whole response\<close>

text \<open>The content length, if one is announced, covers the data.\<close>

definition announced_enough :: "usize option \<Rightarrow> bytes \<Rightarrow> bool" where
  "announced_enough cl data = (case cl of None \<Rightarrow> True | Some m \<Rightarrow> length data \<le> m)"

lemma receive_delivers:
  assumes "wf_status version code reason" and "list_all wf_field hs"
    and "length (render_head version code reason hs) \<le> head_capacity"
    and "until_eof (arrivals c) = Some (render_head version code reason hs @ data)"
    and "from_u16 (of_nat code) = Some sc" and "length uninit = 4096"
    and "arrival_bytes (arrivals c) < usize_size - 4096"
    and "announced_enough (find_content_length (stored_fields uni hs)) data"
  shows "\<exists>resp c'. receive oc uni from_u16 uninit c = Ret (Ok (Ready resp), c') \<and>
    rs_status_code resp = sc \<and> rs_headers resp = header_map_new (stored_fields uni hs) \<and>
    sent c' = sent c \<and>
    (\<forall>fuel. arrival_work (arrivals c) + 2 < fuel \<longrightarrow>
       (\<exists>b'. read_body oc fuel (rs_body resp) = Some (Ret (data, Eof, b'))))"
proof -
  obtain c' rest d' where
    rh: "read_head oc uni [] c =
      Ret (Ok (Ready ((of_nat code, from_utf8_lossy version, stored_fields uni hs), rest)), c')"
    and d': "until_eof (arrivals c') = Some d'" "rest @ d' = data" and "later c c'"
    using read_head_render[OF assms(1-4)] by blast
  then have lat: "sent c' = sent c" "arrival_bytes (arrivals c') \<le> arrival_bytes (arrivals c)"
      "arrival_work (arrivals c') \<le> arrival_work (arrivals c)"
    by (simp_all add: later_def)
  let ?b = "body_new uninit c' (Some rest) (find_content_length (stored_fields uni hs))"
  let ?resp = "\<lparr>rs_status_code = sc, rs_headers = header_map_new (stored_fields uni hs), rs_body = ?b\<rparr>"
  have "\<exists>b'. read_body oc fuel ?b = Some (Ret (rest @ d', Eof, b'))"
    if "arrival_work (arrivals c) + 2 < fuel" for fuel
  proof (rule read_body_new_delivers[OF assms(6) _ d'(1)])
    show "case find_content_length (stored_fields uni hs) of None \<Rightarrow> True | Some m \<Rightarrow> length d' \<le> m"
      using assms(8) d'(2) by (auto simp: announced_enough_def split: option.splits)
  qed (use that assms(7) lat in auto)
  moreover have "receive oc uni from_u16 uninit c = Ret (Ok (Ready ?resp), c')"
    by (simp add: receive_def rh response_new_def assms(5))
  ultimately show ?thesis using d' lat by (intro exI[of _ ?resp] exI[of _ c']) simp
qed

section \<open>When receiving panics\<close>

lemma line_end_in_head:
  assumes "find_window head_end xs = Some i"
  shows "find_window CRLF (take (i + 4) xs) \<noteq> None"
proof
  assume "find_window CRLF (take (i + 4) xs) = None"
  from find_window_None[OF this, of i] have "take 2 (take 4 (drop i xs)) \<noteq> CRLF"
    by (simp add: drop_take numeral_2_eq_2)
  moreover have "take 4 (drop i xs) = head_end" using find_window_Some(1)[OF assms] by (simp add: eval_nat_numeral)
  ultimately show False by (simp add: numeral_2_eq_2)
qed

lemma read_head_status:
  "read_head oc uni acc c = Ret (Ok (Ready ((status, reason, headers), rest)), c') \<Longrightarrow>
   100 \<le> unat status \<and> unat status \<le> 599"
proof (induction oc uni acc c rule: read_head.induct)
  case (1 oc uni acc c)
  obtain q c1 where cr: "conn_read (head_capacity - length acc) c = (q, c1)" by fastforce
  with "1.prems" obtain bs where q: "q = Ok (Ready bs)" and bs: "bs \<noteq> []"
    by (cases q rule: sum.exhaust[case_product async.exhaust])
      (auto simp: read_head.simps[of oc uni acc c] split: if_splits async.splits)
  show ?case
  proof (cases "find_window (CRLF @ CRLF) (acc @ bs)")
    case None
    with "1.prems" cr q bs have "read_head oc uni (acc @ bs) c1 =
        Ret (Ok (Ready ((status, reason, headers), rest)), c')"
      by (simp add: read_head.simps[of oc uni acc c])
    with "1.IH"[OF cr[symmetric] q _ _ refl None] bs show ?thesis by simp
  next
    case (Some i)
    then obtain res where res: "header_loop oc uni (parse_headers (take (i + 4) (acc @ bs))) (0, [], []) =
        Ret res"
      and "(case res of Err e \<Rightarrow> Err e | Ok hdr \<Rightarrow> Ok (Ready (hdr, drop (i + 4) (acc @ bs)))) =
        (Ok (Ready ((status, reason, headers), rest)) :: (head \<times> bytes) io_poll)"
      using "1.prems" cr q bs
      by (auto simp: read_head.simps[of oc uni acc c] Let_def omap_eq_Ret_iff)
    then have "res = Ok (status, reason, headers)" by (auto split: sum.split_asm)
    moreover have "find_window CRLF (take (i + 4) (acc @ bs)) \<noteq> None"
      by (rule line_end_in_head[OF Some])
    ultimately show ?thesis using res header_loop_status_bounds by blast
  qed
qed

text \<open>
  \<open>Response::new\<close> never fails on what the parser accepts: \<open>StatusCode::from_u16\<close> accepts
  every number from 100 to 599.
\<close>

lemma receive_panic_iff:
  assumes "\<And>n. 100 \<le> unat n \<Longrightarrow> unat n \<le> 599 \<Longrightarrow> from_u16 n \<noteq> None"
  shows "is_panic (receive oc uni from_u16 uninit c) \<longleftrightarrow> is_panic (read_head oc uni [] c)"
proof (cases "read_head oc uni [] c")
  case (Panic p)
  then show ?thesis by (simp add: receive_def)
next
  case (Ret r)
  obtain q c' where r: "r = (q, c')" by fastforce
  show ?thesis
  proof (cases q)
    case (Inl e)
    with Ret r show ?thesis by (simp add: receive_def)
  next
    case (Inr x)
    show ?thesis
    proof (cases x)
      case NotReady
      with Ret r Inr show ?thesis by (simp add: receive_def)
    next
      case (Ready y)
      obtain status reason headers rest where y: "y = ((status, reason, headers), rest)"
        by (metis prod.exhaust)
      from read_head_status[of oc uni "[]" c status reason headers rest c'] Ret r Inr Ready y
      obtain sc where "from_u16 status = Some sc" using assms[of status] by auto
      with Ret r Inr Ready y show ?thesis by (simp add: receive_def response_new_def)
    qed
  qed
qed

section \<open>The whole exchange\<close>

text \<open>The bytes of a request: the head for the URI, then the pieces of the body.\<close>

definition request_head ::
    "('u, 's, 'a, 'q) uri_api \<Rightarrow> (rstr \<Rightarrow> rstr) \<Rightarrow> rstr \<Rightarrow> rstr \<Rightarrow> 'u \<Rightarrow> (rstr \<times> rstr) list \<Rightarrow> bytes" where
  "request_head A uni method host url headers =
     request_line A method url @ CRLF @
     concat (map (\<lambda>h. render_header h @ CRLF) (request_fields uni host headers)) @ CRLF"

definition body_pieces :: "bytes list option \<Rightarrow> bytes list" where
  "body_pieces vs = (case vs of None \<Rightarrow> [] | Some pieces \<Rightarrow> pieces)"

lemma request_sends:
  assumes "connect \<lparr>dst_uri = rq_uri req\<rparr> = Ok (Ready c)"
    and "uri_host A (rq_uri req) = Some host"
    and "rq_body req = map_option (map Ok) vs"
    and "answers c = replicate (Suc (length (body_pieces vs))) (Ok ())"
  shows "request oc A uni as_str from_u16 uninit connect req =
    omap (\<lambda>(r, c). (r, Some c)) (receive oc uni from_u16 uninit
      (c\<lparr>answers := [], sent := sent c @
        request_head A uni (as_str (rq_method req)) host (rq_uri req) (rq_headers req) @
        concat (body_pieces vs)\<rparr>))"
proof -
  let ?head = "request_head A uni (as_str (rq_method req)) host (rq_uri req) (rq_headers req)"
  let ?c = "c\<lparr>answers := replicate (length (body_pieces vs)) (Ok ()), sent := sent c @ ?head\<rparr>"
  have head: "build_req A uni (as_str (rq_method req)) (rq_uri req) (rq_headers req) = Ret ?head"
    using assms(2) by (simp add: build_req_reference request_head_def)
  have wr: "conn_write_all ?head c = (Ok (Ready ()), ?c)"
    using assms(4) by (simp add: conn_write_all_Ok)
  have "(case rq_body req of None \<Rightarrow> (Ok (Ready ()), ?c) | Some items \<Rightarrow> send_body items ?c) =
      (Ok (Ready ()), ?c\<lparr>answers := [], sent := sent ?c @ concat (body_pieces vs)\<rparr>)"
    using assms(3) send_body_all[of ?c "body_pieces vs" "[]"]
    by (cases vs) (simp_all add: body_pieces_def)
  then show ?thesis by (simp add: request_def assms(1) head wr)
qed

section \<open>Properties\<close>

text \<open>
  (C10) The request head is what it should be: the request line, then \<open>Host\<close> with the URI's host
  and \<open>Connection: close\<close>, then the caller's headers in their order except every spelling
  of \<open>Host\<close>, one per line, and a blank line. Without a host in the URI the call panics.
\<close>

theorem build_req_meets_reference:
  "build_req A uni method url headers =
     (case uri_host A url of
        None \<Rightarrow> Panic UnwrapNone
      | Some host \<Rightarrow> Ret (request_head A uni method host url headers))"
  by (simp add: build_req_reference request_head_def split: option.split)

text \<open>
  (C36) The request head ends where the server will see its end: when the method, the path, the host
  and the names and values of the caller's headers contain no carriage return, the blank line
  that closes the head is the first one in it. Nothing else is asked of the headers: names
  and values may be empty, contain colons or be surrounded by spaces.
\<close>

theorem request_head_ends_once:
  assumes "uri_host A url = Some host" and "CR \<notin> set host" and "CR \<notin> set method"
    and "\<And>path. path_and_query A url = Some path \<Longrightarrow> CR \<notin> set path"
    and "\<And>name val. (name, val) \<in> set headers \<Longrightarrow> CR \<notin> set name \<and> CR \<notin> set val"
  shows "\<exists>head. build_req A uni method url headers = Ret head \<and>
    find_window (CRLF @ CRLF) head = Some (length head - 4)"
proof -
  have line: "CR \<notin> set (request_line A method url)"
    using assms(3,4) by (auto simp: request_line_def lit_def split: option.splits)
  have fields: "list_all unbroken (request_fields uni host headers)"
    using assms(2,5) by (auto simp: request_fields_def unbroken_def list_all_iff lit_def)
  show ?thesis
    using find_head_end_fields[OF line fields, of "[]"] assms(1) by (simp add: build_req_reference)
qed

theorem request_head_ends_once_witness:
  "\<exists>head. build_req sample_api id (lit ''GET'') (dst_uri (sample_dst (lit ''http'') (lit ''a.b'') None))
      [(lit ''host'', lit ''x''), (lit ''Accept'', []), (lit '' a:b'', lit ''c '')] = Ret head \<and>
    find_window (CRLF @ CRLF) head = Some (length head - 4)"
  by (rule request_head_ends_once[where host="lit ''a.b''"])
    (auto simp: sample_api_def sample_dst_def lit_def)

text \<open>
  (C24) A response head must end within 4096 bytes: when the connection brings no blank line in its
  first 4096 bytes, be it because the head is longer or because the connection ends before,
  reading the head ends with the error \<open>Broken headers\<close>; it neither hangs nor panics.
\<close>

theorem oversized_head_is_error:
  assumes "until_eof (arrivals c) = Some d"
    and "find_window (CRLF @ CRLF) (take 4096 d) = None"
  shows "\<exists>c'. receive oc uni from_u16 uninit c = Ret (Err (IoError Other ''Broken headers''), c')"
  using read_head_broken[OF assms(1), of "[]" oc uni] assms(2)
  by (auto simp: receive_def head_capacity_def)

theorem oversized_head_is_error_witness:
  "\<exists>c'. receive True id (Some :: u16 \<Rightarrow> u16 option) [] \<lparr>arrivals = [Ok [72, 84], Ok [13], Ok []], answers = [], sent = []\<rparr> =
    Ret (Err (IoError Other ''Broken headers''), c')"
  by (rule oversized_head_is_error[where d="[72, 84, 13]"]) simp_all

text \<open>
  Receiving panics only where the head parser does: the status code that reaches the response
  is always in the range that \<open>StatusCode::from_u16\<close> accepts, so that building the response
  adds no panic of its own.
\<close>

lemma receive_panics_only_in_parser:
  assumes "\<And>n. 100 \<le> unat n \<Longrightarrow> unat n \<le> 599 \<Longrightarrow> from_u16 n \<noteq> None"
  shows "is_panic (receive oc uni from_u16 uninit c) \<longleftrightarrow> is_panic (read_head oc uni [] c)"
  by (rule receive_panic_iff[OF assms])

lemma receive_panics_only_in_parser_witness:
  "is_panic (receive True id (\<lambda>n. if 100 \<le> unat n \<and> unat n \<le> 999 then Some n else None) []
     \<lparr>arrivals = [Ok (CRLF @ CRLF)], answers = [], sent = []\<rparr>)"
proof -
  have "is_panic (read_head True id [] \<lparr>arrivals = [Ok (CRLF @ CRLF)], answers = [], sent = []\<rparr>)"
    by (subst read_head.simps)
      (simp add: conn_read_def head_capacity_def header_loop.simps parse_headers_next_def
        parse_headers_def parse_status_def)
  then show ?thesis
    by (subst receive_panics_only_in_parser) simp_all
qed

end
