(* ===== verification/Futures.thy ===== *)
theory Futures
  imports Http_Prelude
begin

text \<open>
  The contract between a poll-based future and the code that drives it. A future is a poll
  function over an environment \<open>'e\<close> (what the outside world answers during that poll) and
  its own state; \<open>run_polls\<close> is an executor that polls until the future completes or the
  environments are used up.
  \<^item> \<open>live_future\<close>: under an invariant of the state, which every poll keeps, polling a live
    future never panics and a pending future stays live.
  \<^item> \<open>one_shot_future\<close>: a completed future is no longer live, and polling it panics.
  \<^item> \<open>guarded_future\<close>: a live future together with a fact that does not depend on its state.
  \<^item> \<open>progressing_future\<close>: every poll that leaves the future pending uses up some of the work
    that is left, so that an executor which polls often enough gets an answer;
    \<open>patient_future\<close>: no poll adds work, so that the futures after it can be run as well.
  The futures of the crate are instances: the resolver futures (theories \<open>Ares\<close> and \<open>Dns\<close>),
  the TLS handshake, the tunnel and the TCP connection attempt.
\<close>

type_synonym ('x, 'a) poll_result = "'x + 'a async"

fun run_polls ::
    "('e \<Rightarrow> 's \<Rightarrow> (('x, 'a) poll_result \<times> 's) outcome) \<Rightarrow> 'e list \<Rightarrow> 's \<Rightarrow>
     (('x, 'a) poll_result \<times> 's) outcome" where
  "run_polls poll [] s = Ret (Ok NotReady, s)"
| "run_polls poll (e # es) s =
     obind (poll e s) (\<lambda>(r, s'). if r = Ok NotReady then run_polls poll es s' else Ret (r, s'))"

text \<open>
  The same executor with the environments that are left: the one of the poll that completed
  the future comes first.
\<close>

fun run_until ::
    "('e \<Rightarrow> 's \<Rightarrow> (('x, 'a) poll_result \<times> 's) outcome) \<Rightarrow> 'e list \<Rightarrow> 's \<Rightarrow>
     ((('x, 'a) poll_result \<times> 's) \<times> 'e list) outcome" where
  "run_until poll [] s = Ret ((Ok NotReady, s), [])"
| "run_until poll (e # es) s =
     obind (poll e s) (\<lambda>(r, s').
       if r = Ok NotReady then run_until poll es s' else Ret ((r, s'), e # es))"

lemma run_polls_until: "run_polls poll es s = omap fst (run_until poll es s)"
proof (induction es arbitrary: s)
  case (Cons e es)
  then show ?case by (cases "poll e s") auto
qed simp

lemma run_until_split:
  "run_until poll es s = Ret ((r, s'), es') \<Longrightarrow> r \<noteq> Ok NotReady \<Longrightarrow>
   \<exists>es0 e es1. es = es0 @ e # es1 \<and> es' = e # es1 \<and> run_polls poll (es0 @ [e]) s = Ret (r, s')"
proof (induction es arbitrary: s)
  case (Cons e es)
  obtain q t where p: "poll e s = Ret (q, t)" using Cons.prems(1) by (cases "poll e s") auto
  show ?case
  proof (cases "q = Ok NotReady")
    case True
    with Cons p obtain es0 e' es1 where "es = es0 @ e' # es1" "es' = e' # es1"
      "run_polls poll (es0 @ [e']) t = Ret (r, s')" by fastforce
    with p True show ?thesis by (intro exI[of _ "e # es0"]) simp
  next
    case False
    with Cons.prems p show ?thesis by (intro exI[of _ "[]"]) auto
  qed
qed simp

section \<open>The contracts\<close>

locale live_future =
  fixes poll :: "'e \<Rightarrow> 's \<Rightarrow> (('x, 'a) poll_result \<times> 's) outcome"
    and inv :: "'s \<Rightarrow> bool"
    and live :: "'s \<Rightarrow> bool"
  assumes inv_poll: "inv s \<Longrightarrow> live s \<Longrightarrow> poll e s = Ret (r, s') \<Longrightarrow> inv s'"
    and live_poll: "inv s \<Longrightarrow> live s \<Longrightarrow> \<not> is_panic (poll e s)"
    and live_pending: "inv s \<Longrightarrow> live s \<Longrightarrow> poll e s = Ret (Ok NotReady, s') \<Longrightarrow> live s'"
begin

lemma live_cases:
  assumes "inv s" and "live s"
  obtains (pending) s' where "poll e s = Ret (Ok NotReady, s')" and "inv s'" and "live s'"
    | (completed) r s' where "poll e s = Ret (r, s')" and "r \<noteq> Ok NotReady" and "inv s'"
proof -
  obtain r s' where rs: "poll e s = Ret (r, s')"
    using live_poll[OF assms, of e] by (cases "poll e s") auto
  with inv_poll[OF assms rs] live_pending[OF assms, of e s'] that show thesis
    by (cases "r = Ok NotReady") auto
qed

lemma live_run: "inv s \<Longrightarrow> live s \<Longrightarrow> \<not> is_panic (run_polls poll es s)"
proof (induction es arbitrary: s)
  case (Cons e es)
  from Cons.prems(1,2) show ?case
    by (cases rule: live_cases[of s e]) (use Cons in auto)
qed simp

lemma live_run_pending:
  "inv s \<Longrightarrow> live s \<Longrightarrow> run_polls poll es s = Ret (Ok NotReady, s') \<Longrightarrow> inv s' \<and> live s'"
proof (induction es arbitrary: s)
  case (Cons e es)
  from Cons.prems(1,2) show ?case
    by (cases rule: live_cases[of s e]) (use Cons in auto)
qed simp

lemma live_run_inv: "inv s \<Longrightarrow> live s \<Longrightarrow> run_polls poll es s = Ret (r, s') \<Longrightarrow> inv s'"
proof (induction es arbitrary: s)
  case (Cons e es)
  from Cons.prems(1,2) show ?case
    by (cases rule: live_cases[of s e]) (use Cons in auto)
qed simp

text \<open>The poll that completed the future ran on a live state that satisfies the invariant.\<close>

lemma run_last_poll:
  "inv s \<Longrightarrow> live s \<Longrightarrow> run_polls poll es s = Ret (r, s') \<Longrightarrow> r \<noteq> Ok NotReady \<Longrightarrow>
   \<exists>e t. inv t \<and> live t \<and> poll e t = Ret (r, s')"
proof (induction es arbitrary: s)
  case (Cons e es)
  from Cons.prems(1,2) show ?case
    by (cases rule: live_cases[of s e]) (use Cons in auto)
qed simp

end

text \<open>A condition on the surroundings that no poll changes can be carried in the invariant.\<close>

locale guarded_future = live_future poll inv live
  for poll :: "'e \<Rightarrow> 's \<Rightarrow> (('x, 'a) poll_result \<times> 's) outcome" and inv live +
  fixes guard :: bool

sublocale guarded_future \<subseteq> guarded: live_future poll "\<lambda>s. inv s \<and> guard" live
  by unfold_locales (auto intro: inv_poll live_pending simp: live_poll)

locale one_shot_future = live_future +
  assumes done_dead:
      "inv s \<Longrightarrow> live s \<Longrightarrow> poll e s = Ret (r, s') \<Longrightarrow> r \<noteq> Ok NotReady \<Longrightarrow> \<not> live s'"
    and dead_poll: "inv s \<Longrightarrow> \<not> live s \<Longrightarrow> is_panic (poll e s)"
begin

lemma run_done_dead:
  "inv s \<Longrightarrow> live s \<Longrightarrow> run_polls poll es s = Ret (r, s') \<Longrightarrow> r \<noteq> Ok NotReady \<Longrightarrow>
   inv s' \<and> \<not> live s'"
proof (induction es arbitrary: s)
  case (Cons e es)
  from Cons.prems(1,2) show ?case
  proof (cases rule: live_cases[of s e])
    case (pending t)
    with Cons show ?thesis by auto
  next
    case (completed q t)
    with Cons.prems done_dead[OF Cons.prems(1,2), of e q t] show ?thesis by auto
  qed
qed simp

text \<open>A future that has completed cannot be polled again without a panic.\<close>

lemma poll_after_completion:
  assumes "inv s" and "live s" and "run_polls poll es s = Ret (r, s')" and "r \<noteq> Ok NotReady"
  shows "is_panic (poll e s')"
  using dead_poll run_done_dead[OF assms] by blast

end

text \<open>A live future whose pending polls cannot go on for ever.\<close>

locale progressing_future = live_future +
  fixes work :: "'b \<Rightarrow> nat"
  assumes pending_work: "inv s \<Longrightarrow> live s \<Longrightarrow> poll e s = Ret (Ok NotReady, s') \<Longrightarrow> work s' < work s"
begin

lemma run_completes:
  "inv s \<Longrightarrow> live s \<Longrightarrow> work s < length es \<Longrightarrow>
   \<exists>r s'. run_polls poll es s = Ret (r, s') \<and> r \<noteq> Ok NotReady"
proof (induction es arbitrary: s)
  case (Cons e es)
  from Cons.prems(1,2) show ?case
  proof (cases rule: live_cases[of s e])
    case (pending t)
    with Cons.prems pending_work[OF Cons.prems(1,2) pending(1)] Cons.IH[of t] show ?thesis by simp
  next
    case (completed q t)
    then show ?thesis by simp
  qed
qed simp

end

text \<open>
  The work left may also bound what happens after the future: no poll raises it, so that a run
  with more polls than work stops with more polls left than work.
\<close>

locale patient_future = progressing_future +
  assumes settled_work: "inv s \<Longrightarrow> live s \<Longrightarrow> poll e s = Ret (r, s') \<Longrightarrow> work s' \<le> work s"
begin

lemma run_until_settles:
  "inv s \<Longrightarrow> live s \<Longrightarrow> work s < length es \<Longrightarrow>
   \<exists>r s' es'. run_until poll es s = Ret ((r, s'), es') \<and> r \<noteq> Ok NotReady \<and> work s' < length es'"
proof (induction es arbitrary: s)
  case (Cons e es)
  from Cons.prems(1,2) show ?case
  proof (cases rule: live_cases[of s e])
    case (pending t)
    with Cons.prems pending_work[OF Cons.prems(1,2) pending(1)] Cons.IH[of t] show ?thesis by simp
  next
    case (completed q t)
    with Cons.prems settled_work[OF Cons.prems(1,2) completed(1)] show ?thesis by simp
  qed
qed simp

end

end
