(* ===== verification/Dns.thy ===== *)
theory Dns
  imports Futures "HOL-Library.Multiset"
begin

text \<open>
  Addresses, the address iterators and the \<open>getaddrinfo\<close> resolvers, \<open>src/src/http/dns.rs\<close>.
  The system resolver, the thread pools and the text parsers of IP addresses are arguments.
  The locale \<open>address_iterator\<close> is the contract of the \<open>Addrs\<close> type of a resolver: a
  \<open>next\<close> function that walks through a list.
\<close>

section \<open>Addresses\<close>

datatype ip_addr = IpV4 "32 word" | IpV6 "128 word"

datatype socket_addr = SocketV4 "32 word" u16 | SocketV6 "128 word" u16 "32 word" "32 word"

definition socket_addr_new :: "ip_addr \<Rightarrow> u16 \<Rightarrow> socket_addr" where
  "socket_addr_new ip port =
     (case ip of IpV4 a \<Rightarrow> SocketV4 a port | IpV6 a \<Rightarrow> SocketV6 a port 0 0)"

primrec is_ipv6 :: "socket_addr \<Rightarrow> bool" where
  "is_ipv6 (SocketV4 a p) = False"
| "is_ipv6 (SocketV6 a p f s) = True"

primrec sock_ip :: "socket_addr \<Rightarrow> ip_addr" where
  "sock_ip (SocketV4 a p) = IpV4 a"
| "sock_ip (SocketV6 a p f s) = IpV6 a"

primrec sock_port :: "socket_addr \<Rightarrow> u16" where
  "sock_port (SocketV4 a p) = p"
| "sock_port (SocketV6 a p f s) = p"

section \<open>Address lists\<close>

record name =
  name_host :: rstr

definition name_new :: "rstr \<Rightarrow> name" where
  "name_new host = \<lparr>name_host = host\<rparr>"

definition name_as_str :: "name \<Rightarrow> rstr" where
  "name_as_str n = name_host n"

record ip_addrs =
  ia_iter :: "socket_addr list"

definition ip_addrs_new :: "socket_addr list \<Rightarrow> ip_addrs" where
  "ip_addrs_new addrs = \<lparr>ia_iter = addrs\<rparr>"

definition try_parse ::
    "(rstr \<Rightarrow> 32 word option) \<Rightarrow> (rstr \<Rightarrow> 128 word option) \<Rightarrow> rstr \<Rightarrow> u16 \<Rightarrow> ip_addrs option" where
  "try_parse parse_v4 parse_v6 host port =
     (case parse_v4 host of
        Some addr \<Rightarrow> Some \<lparr>ia_iter = [SocketV4 addr port]\<rparr>
      | None \<Rightarrow>
        (case parse_v6 host of
           Some addr \<Rightarrow> Some \<lparr>ia_iter = [SocketV6 addr port 0 0]\<rparr>
         | None \<Rightarrow> None))"

definition split_by_preference :: "ip_addrs \<Rightarrow> ip_addrs \<times> ip_addrs" where
  "split_by_preference self =
     (let preferring_v6 =
            (case ia_iter self of [] \<Rightarrow> False | addr # _ \<Rightarrow> is_ipv6 addr);
          (preferred, fallback) =
            partition (\<lambda>addr. is_ipv6 addr = preferring_v6) (ia_iter self) in
      (ip_addrs_new preferred, ip_addrs_new fallback))"

definition ip_addrs_is_empty :: "ip_addrs \<Rightarrow> bool" where
  "ip_addrs_is_empty self \<longleftrightarrow> ia_iter self = []"

definition ip_addrs_next :: "ip_addrs \<Rightarrow> socket_addr option \<times> ip_addrs" where
  "ip_addrs_next self =
     (case ia_iter self of
        [] \<Rightarrow> (None, self)
      | a # as \<Rightarrow> (Some a, self\<lparr>ia_iter := as\<rparr>))"

section \<open>The resolvers over getaddrinfo\<close>

record gai_addrs =
  ga_inner :: ip_addrs

definition gai_addrs_next :: "gai_addrs \<Rightarrow> ip_addr option \<times> gai_addrs" where
  "gai_addrs_next self =
     (case ip_addrs_next (ga_inner self) of
        (sa, inner) \<Rightarrow> (map_option sock_ip sa, self\<lparr>ga_inner := inner\<rparr>))"

record gai_blocking =
  gb_host :: rstr

definition gai_blocking_new :: "rstr \<Rightarrow> gai_blocking" where
  "gai_blocking_new host = \<lparr>gb_host = host\<rparr>"

text \<open>\<open>to_socket_addrs\<close> stands for the blocking system call with port 0.\<close>

definition gai_blocking_poll ::
    "(rstr \<Rightarrow> u16 \<Rightarrow> socket_addr list io_result) \<Rightarrow> gai_blocking \<Rightarrow> ip_addrs io_poll" where
  "gai_blocking_poll to_socket_addrs self =
     (case to_socket_addrs (gb_host self) 0 of
        Err e \<Rightarrow> Err e
      | Ok i \<Rightarrow> Ok (Ready \<lparr>ia_iter = i\<rparr>))"

text \<open>
  The executor of a resolver takes tasks; a task it refuses comes back inside the error.
\<close>

datatype execute_kind = Shutdown | NoCapacity

record 'f execute_error =
  ee_kind :: execute_kind
  ee_future :: 'f

record 'k gai_task =
  gt_work :: 'k

record 'x gai_executor =
  ge_inner :: 'x

record 'x gai_resolver =
  gr_executor :: "'x gai_executor"

type_synonym ('f, 'w) execute = "'f \<Rightarrow> 'w \<Rightarrow> ('f execute_error + unit) \<times> 'w"

definition new_with_executor :: "'x \<Rightarrow> 'x gai_resolver" where
  "new_with_executor executor = \<lparr>gr_executor = \<lparr>ge_inner = executor\<rparr>\<rparr>"

text \<open>\<open>create\<close> stands for the builder of \<open>futures_cpupool\<close> with a name prefix and a size.\<close>

definition gai_resolver_new :: "(string \<Rightarrow> nat \<Rightarrow> 'x) \<Rightarrow> nat \<Rightarrow> 'x gai_resolver" where
  "gai_resolver_new create threads = (let pool = create ''hyper-dns'' threads in new_with_executor pool)"

definition gai_executor_execute ::
    "('x \<Rightarrow> ('k gai_task, 'w) execute) \<Rightarrow> 'x gai_executor \<Rightarrow> ('k, 'w) execute" where
  "gai_executor_execute execute self future w =
     (case execute (ge_inner self) \<lparr>gt_work = future\<rparr> w of
        (r, w') \<Rightarrow>
          (map_sum (\<lambda>err. \<lparr>ee_kind = ee_kind err, ee_future = gt_work (ee_future err)\<rparr>) id r, w'))"

text \<open>
  The one-shot channels of the \<open>futures\<close> crate: \<open>os_new\<close> makes the two ends of a channel, the work
  and the handle, \<open>os_work\<close> polls the work and \<open>os_handle\<close> the handle. \<open>oneshot::spawn\<close> makes
  a channel and gives the work to an executor; it is documented to panic when the executor
  refuses it.
\<close>

record ('k, 'h, 'w) oneshot_api =
  os_new :: "gai_blocking \<Rightarrow> 'w \<Rightarrow> ('k \<times> 'h) \<times> 'w"
  os_work :: "'k \<Rightarrow> 'w \<Rightarrow> (unit + unit async) \<times> 'w"
  os_handle :: "'h \<Rightarrow> 'w \<Rightarrow> ip_addrs io_poll \<times> 'w"

definition oneshot_spawn ::
    "('k, 'h, 'w) oneshot_api \<Rightarrow> gai_blocking \<Rightarrow> ('k, 'w) execute \<Rightarrow> 'w \<Rightarrow> ('h \<times> 'w) outcome" where
  "oneshot_spawn Q future execute w =
     (case os_new Q future w of ((work, rx), w1) \<Rightarrow>
        (case execute work w1 of
           (Ok _, w2) \<Rightarrow> Ret (rx, w2)
         | (Err _, w2) \<Rightarrow> Panic (PanicMsg ''failed to spawn future'')))"

definition gai_task_poll :: "('k, 'h, 'w) oneshot_api \<Rightarrow> 'k gai_task \<Rightarrow> 'w \<Rightarrow> (unit + unit async) \<times> 'w" where
  "gai_task_poll Q self w = os_work Q (gt_work self) w"

record 'h gai_future =
  gf_rx :: 'h

definition gai_resolve ::
    "('k, 'h, 'w) oneshot_api \<Rightarrow> ('x \<Rightarrow> ('k gai_task, 'w) execute) \<Rightarrow> 'x gai_resolver \<Rightarrow> name \<Rightarrow> 'w \<Rightarrow>
     ('h gai_future \<times> 'w) outcome" where
  "gai_resolve Q execute self n w =
     (let blocking = gai_blocking_new (name_host n) in
      omap (\<lambda>(rx, w'). (\<lparr>gf_rx = rx\<rparr>, w'))
        (oneshot_spawn Q blocking (gai_executor_execute execute (gr_executor self)) w))"

definition gai_future_poll ::
    "('k, 'h, 'w) oneshot_api \<Rightarrow> 'h gai_future \<Rightarrow> 'w \<Rightarrow> gai_addrs io_poll \<times> 'w" where
  "gai_future_poll Q self w =
     (case os_handle Q (gf_rx self) w of
        (Err e, w') \<Rightarrow> (Err e, w')
      | (Ok NotReady, w') \<Rightarrow> (Ok NotReady, w')
      | (Ok (Ready addrs), w') \<Rightarrow> (Ok (Ready \<lparr>ga_inner = addrs\<rparr>), w'))"

text \<open>A shared resolver: \<open>Arc\<close> passes the call on.\<close>

definition arc_resolve :: "('t \<Rightarrow> name \<Rightarrow> 'a) \<Rightarrow> 't \<Rightarrow> name \<Rightarrow> 'a" where
  "arc_resolve resolve self n = resolve self n"

datatype tokio_gai_resolver = TokioThreadpoolGaiResolver unit

definition tokio_gai_resolver_new :: tokio_gai_resolver where
  "tokio_gai_resolver_new = TokioThreadpoolGaiResolver ()"

record tokio_gai_future =
  tg_name :: name

definition tokio_gai_resolve :: "tokio_gai_resolver \<Rightarrow> name \<Rightarrow> tokio_gai_future" where
  "tokio_gai_resolve self n = \<lparr>tg_name = n\<rparr>"

text \<open>\<open>tokio_threadpool::blocking\<close> may refuse, ask to wait, or run the closure.\<close>

definition tokio_gai_poll ::
    "(rstr \<Rightarrow> u16 \<Rightarrow> socket_addr list io_result) \<Rightarrow> string + unit async \<Rightarrow> tokio_gai_future \<Rightarrow>
     gai_addrs io_poll" where
  "tokio_gai_poll to_socket_addrs blocking self =
     (case blocking of
        Ok (Ready _) \<Rightarrow>
          (case to_socket_addrs (name_as_str (tg_name self)) 0 of
             Ok iter \<Rightarrow> Ok (Ready \<lparr>ga_inner = \<lparr>ia_iter = iter\<rparr>\<rparr>)
           | Err e \<Rightarrow> Err e)
      | Ok NotReady \<Rightarrow> Ok NotReady
      | Err e \<Rightarrow> Err (IoError Other e))"

section \<open>The contract of an address iterator\<close>

text \<open>\<open>iter.collect()\<close>, with a bound on the number of calls of \<open>next\<close>.\<close>

fun iter_collect :: "('s \<Rightarrow> 'a option \<times> 's) \<Rightarrow> nat \<Rightarrow> 's \<Rightarrow> 'a list" where
  "iter_collect nxt 0 s = []"
| "iter_collect nxt (Suc n) s =
     (case nxt s of
        (None, s') \<Rightarrow> []
      | (Some a, s') \<Rightarrow> a # iter_collect nxt n s')"

locale address_iterator =
  fixes nxt :: "'s \<Rightarrow> 'a option \<times> 's"
    and items :: "'s \<Rightarrow> 'a list"
  assumes nxt_None: "nxt s = (None, s') \<Longrightarrow> items s = [] \<and> items s' = []"
    and nxt_Some: "nxt s = (Some a, s') \<Longrightarrow> items s = a # items s'"
begin

lemma collect_items: "length (items s) \<le> n \<Longrightarrow> iter_collect nxt n s = items s"
proof (induction n arbitrary: s)
  case (Suc n)
  obtain r s' where rs: "nxt s = (r, s')" by fastforce
  show ?case
  proof (cases r)
    case None
    with rs nxt_None[of s s'] show ?thesis by simp
  next
    case (Some a)
    with rs nxt_Some[of s a s'] Suc show ?thesis by simp
  qed
qed simp

end

interpretation ipa: address_iterator ip_addrs_next ia_iter
  by unfold_locales (auto simp: ip_addrs_next_def split: list.splits)

definition gai_items :: "gai_addrs \<Rightarrow> ip_addr list" where
  "gai_items self = map sock_ip (ia_iter (ga_inner self))"

interpretation gai: address_iterator gai_addrs_next gai_items
  by unfold_locales
    (auto simp: gai_addrs_next_def gai_items_def split: prod.splits
      dest: ipa.nxt_None ipa.nxt_Some)

section \<open>Splitting by preference\<close>

lemma split_by_preference_filter:
  "split_by_preference self =
     (case ia_iter self of
        [] \<Rightarrow> (\<lparr>ia_iter = []\<rparr>, \<lparr>ia_iter = []\<rparr>)
      | a # as \<Rightarrow>
          (\<lparr>ia_iter = filter (\<lambda>b. is_ipv6 b = is_ipv6 a) (a # as)\<rparr>,
           \<lparr>ia_iter = filter (\<lambda>b. is_ipv6 b \<noteq> is_ipv6 a) (a # as)\<rparr>))"
  by (simp add: split_by_preference_def ip_addrs_new_def Let_def comp_def split: list.splits)

lemma sock_ip_new [simp]: "sock_ip (socket_addr_new ip port) = ip"
  by (cases ip) (simp_all add: socket_addr_new_def)

lemma sock_port_new [simp]: "sock_port (socket_addr_new ip port) = port"
  by (cases ip) (simp_all add: socket_addr_new_def)

section \<open>Properties\<close>

text \<open>
  Splitting the resolved addresses by family loses and invents none, keeps the order
  within each family, puts the family of the first address first, and never leaves the
  preferred list empty while there is an address.
\<close>

lemma split_by_preference_partitions:
  assumes "split_by_preference self = (preferred, fallback)"
  shows "mset (ia_iter preferred) + mset (ia_iter fallback) = mset (ia_iter self) \<and>
    (ia_iter self \<noteq> [] \<longrightarrow> ia_iter preferred \<noteq> [] \<and> hd (ia_iter preferred) = hd (ia_iter self)) \<and>
    (\<forall>a\<in>set (ia_iter preferred). is_ipv6 a = is_ipv6 (hd (ia_iter self))) \<and>
    (\<forall>a\<in>set (ia_iter fallback). is_ipv6 a \<noteq> is_ipv6 (hd (ia_iter self))) \<and>
    (\<exists>P. ia_iter preferred = filter P (ia_iter self) \<and> ia_iter fallback = filter (\<lambda>a. \<not> P a) (ia_iter self))"
proof (cases "ia_iter self")
  case Nil
  with assms show ?thesis by (auto simp: split_by_preference_filter)
next
  case (Cons a as)
  let ?P = "\<lambda>b. is_ipv6 b = is_ipv6 a"
  have *: "ia_iter preferred = filter ?P (ia_iter self)"
    "ia_iter fallback = filter (\<lambda>b. \<not> ?P b) (ia_iter self)"
    using assms Cons by (auto simp: split_by_preference_filter)
  have "mset (filter ?P (ia_iter self)) + mset (filter (\<lambda>b. \<not> ?P b) (ia_iter self)) = mset (ia_iter self)"
    by (induction "ia_iter self") (auto simp: mset_filter)
  with * Cons show ?thesis by (auto intro!: exI[of _ ?P])
qed

lemma split_by_preference_partitions_witness:
  "mset [SocketV6 1 80 0 0, SocketV6 3 80 0 0] + mset [SocketV4 2 80] =
     mset [SocketV6 1 80 0 0, SocketV4 2 80, SocketV6 3 80 0 0]"
proof -
  have "split_by_preference \<lparr>ia_iter = [SocketV6 1 80 0 0, SocketV4 2 80, SocketV6 3 80 0 0]\<rparr> =
    (\<lparr>ia_iter = [SocketV6 1 80 0 0, SocketV6 3 80 0 0]\<rparr>, \<lparr>ia_iter = [SocketV4 2 80]\<rparr>)"
    by (simp add: split_by_preference_filter)
  from split_by_preference_partitions[OF this] show ?thesis by simp
qed

text \<open>
  What the crates behind the resolver promise: the pool runs a task that it accepted by polling
  it, and once the work of a channel has run, its handle gives the result of the blocking call.
\<close>

definition oneshot_ok ::
    "('k, 'h, 'w) oneshot_api \<Rightarrow> (rstr \<Rightarrow> u16 \<Rightarrow> socket_addr list io_result) \<Rightarrow> bool" where
  "oneshot_ok Q to_socket_addrs \<longleftrightarrow>
     (\<forall>b w k h w1 w2 w3.
        os_new Q b w = ((k, h), w1) \<longrightarrow> os_work Q k w2 = (Ok (Ready ()), w3) \<longrightarrow>
        fst (os_handle Q h w3) = gai_blocking_poll to_socket_addrs b)"

text \<open>
  (C31) A resolver based on \<open>getaddrinfo\<close> hands out exactly the addresses of the system's answer, in
  their order: once the pool has accepted and run the task, polling the future of
  \<open>GaiResolver\<close> gives an iterator over the IP addresses that the system returned for the
  name, and so does the future of \<open>TokioThreadpoolGaiResolver\<close> when its closure is run. An
  executor that refuses the task makes \<open>resolve\<close> panic.
\<close>

theorem gai_iterates_answer:
  assumes "oneshot_ok Q to_socket_addrs" and "os_new Q (gai_blocking_new (name_as_str n)) w = ((k, h), w1)"
    and "execute x \<lparr>gt_work = k\<rparr> w1 = (verdict, w2)"
    and "gai_task_poll Q \<lparr>gt_work = k\<rparr> w3 = (Ok (Ready ()), w4)"
    and "to_socket_addrs (name_as_str n) 0 = Ok sas" and "length sas \<le> c"
  shows "case verdict of
      Err e \<Rightarrow> is_panic (gai_resolve Q execute (new_with_executor x) n w)
    | Ok _ \<Rightarrow> \<exists>fut addrs.
        gai_resolve Q execute (new_with_executor x) n w = Ret (fut, w2) \<and>
        fst (gai_future_poll Q fut w4) = Ok (Ready addrs) \<and>
        tokio_gai_poll to_socket_addrs (Ok (Ready ())) (tokio_gai_resolve tokio_gai_resolver_new n) =
          Ok (Ready addrs) \<and>
        iter_collect gai_addrs_next c addrs = map sock_ip sas"
proof (cases verdict)
  case (Inl e)
  with assms(2,3) show ?thesis
    by (simp add: gai_resolve_def oneshot_spawn_def gai_executor_execute_def new_with_executor_def name_as_str_def)
next
  case (Inr u)
  let ?addrs = "\<lparr>ga_inner = \<lparr>ia_iter = sas\<rparr>\<rparr>"
  have fut: "gai_resolve Q execute (new_with_executor x) n w = Ret (\<lparr>gf_rx = h\<rparr>, w2)"
    using Inr assms(2,3)
    by (simp add: gai_resolve_def oneshot_spawn_def gai_executor_execute_def new_with_executor_def name_as_str_def)
  have "os_work Q k w3 = (Ok (Ready ()), w4)" using assms(4) by (simp add: gai_task_poll_def)
  with assms(1,2) have "fst (os_handle Q h w4) = gai_blocking_poll to_socket_addrs (gai_blocking_new (name_as_str n))"
    unfolding oneshot_ok_def by blast
  then have poll: "fst (gai_future_poll Q \<lparr>gf_rx = h\<rparr> w4) = Ok (Ready ?addrs)"
    using assms(5)
    by (cases "os_handle Q h w4") (simp add: gai_future_poll_def gai_blocking_poll_def gai_blocking_new_def)
  have "iter_collect gai_addrs_next c ?addrs = map sock_ip sas"
    using gai.collect_items[of ?addrs c] assms(6) by (simp add: gai_items_def)
  with Inr fut poll assms(5) show ?thesis
    by (simp add: tokio_gai_poll_def tokio_gai_resolve_def)
qed

text \<open>A channel whose work is the request itself, and a pool that accepts everything.\<close>

definition sample_oneshot :: "(gai_blocking, gai_blocking, unit) oneshot_api" where
  "sample_oneshot =
     \<lparr>os_new = (\<lambda>b w. ((b, b), w)), os_work = (\<lambda>k w. (Ok (Ready ()), w)),
      os_handle = (\<lambda>h w. (gai_blocking_poll (\<lambda>host p. Ok [SocketV4 7 p]) h, w))\<rparr>"

theorem gai_iterates_answer_witness:
  "\<exists>fut addrs.
     gai_resolve sample_oneshot (\<lambda>x t w. (Ok (), w)) (gai_resolver_new (\<lambda>pre size. size) 4)
       (name_new (lit ''a'')) () = Ret (fut, ()) \<and>
     fst (gai_future_poll sample_oneshot fut ()) = Ok (Ready addrs) \<and>
     iter_collect gai_addrs_next 5 addrs = [IpV4 7]"
proof -
  have "oneshot_ok sample_oneshot (\<lambda>host p. Ok [SocketV4 7 p])"
    by (simp add: oneshot_ok_def sample_oneshot_def)
  from gai_iterates_answer[OF this, of "name_new (lit ''a'')" "()" _ _ "()" "\<lambda>x t w. (Ok (), w)" 4 "Ok ()" "()" "()" "()"
      "[SocketV4 7 0]" 5]
  show ?thesis
    by (auto simp: sample_oneshot_def gai_task_poll_def gai_resolver_new_def)
qed

end
