(* ===== verification/Connecting_Tcp.thy ===== *)
theory Connecting_Tcp
  imports Dns
begin

text \<open>
  TCP connection attempts, the second half of \<open>src/src/http/mod.rs\<close>: one socket
  (\<open>tcp_connect\<close>, the free function \<open>connect\<close>), a list of addresses tried one after the other
  (\<open>ConnectingTcpRemote\<close>), and the race of two address families (\<open>ConnectingTcp\<close>).

  Sockets, pending connection attempts, timers and reactor handles are numbers that name
  objects of an outside world \<open>'w\<close>; \<open>net_api\<close> is the record of the operations on them, an
  argument of the definitions.
\<close>

section \<open>The outside world\<close>

record 'w net_api =
  new_v4 :: "'w \<Rightarrow> nat io_result \<times> 'w"
  new_v6 :: "'w \<Rightarrow> nat io_result \<times> 'w"
  tcp_reuse_address :: "nat \<Rightarrow> bool \<Rightarrow> 'w \<Rightarrow> unit io_result \<times> 'w"
  tcp_bind :: "nat \<Rightarrow> socket_addr \<Rightarrow> 'w \<Rightarrow> unit io_result \<times> 'w"
  to_tcp_stream :: "nat \<Rightarrow> 'w \<Rightarrow> nat io_result \<times> 'w"
  connect_std :: "nat \<Rightarrow> socket_addr \<Rightarrow> nat \<Rightarrow> 'w \<Rightarrow> nat \<times> 'w"
  handle_default :: nat
  is_windows :: bool
  connect_poll :: "nat \<Rightarrow> 'w \<Rightarrow> nat io_poll \<times> 'w"
  delay_new :: "nat \<Rightarrow> 'w \<Rightarrow> nat \<times> 'w"
  delay_poll :: "nat \<Rightarrow> 'w \<Rightarrow> (unit + unit async) \<times> 'w"
  set_keepalive :: "nat \<Rightarrow> nat option \<Rightarrow> 'w \<Rightarrow> unit io_result \<times> 'w"
  set_nodelay :: "nat \<Rightarrow> bool \<Rightarrow> 'w \<Rightarrow> unit io_result \<times> 'w"
  peer_addr :: "nat \<Rightarrow> 'w \<Rightarrow> socket_addr io_result \<times> 'w"

section \<open>Connection attempts\<close>

record connecting_tcp_remote =
  r_addrs :: ip_addrs
  r_current :: "nat option"

record connecting_tcp_fallback =
  f_delay :: nat
  f_remote :: connecting_tcp_remote

record connecting_tcp =
  ct_local_addr :: "ip_addr option"
  ct_preferred :: connecting_tcp_remote
  ct_fallback :: "connecting_tcp_fallback option"
  ct_reuse_address :: bool

definition remote_new :: "ip_addrs \<Rightarrow> connecting_tcp_remote" where
  "remote_new addrs = \<lparr>r_addrs = addrs, r_current = None\<rparr>"

definition connecting_tcp_new ::
    "'w net_api \<Rightarrow> ip_addr option \<Rightarrow> ip_addrs \<Rightarrow> nat option \<Rightarrow> bool \<Rightarrow> 'w \<Rightarrow> connecting_tcp \<times> 'w" where
  "connecting_tcp_new N local_addr remote_addrs fallback_timeout reuse_address w =
     (case fallback_timeout of
        Some timeout \<Rightarrow>
          (let (preferred_addrs, fallback_addrs) = split_by_preference remote_addrs in
           if ip_addrs_is_empty fallback_addrs then
             (\<lparr>ct_local_addr = local_addr, ct_preferred = remote_new preferred_addrs,
               ct_fallback = None, ct_reuse_address = reuse_address\<rparr>, w)
           else
             (case delay_new N timeout w of (delay, w') \<Rightarrow>
               (\<lparr>ct_local_addr = local_addr, ct_preferred = remote_new preferred_addrs,
                 ct_fallback = Some \<lparr>f_delay = delay, f_remote = remote_new fallback_addrs\<rparr>,
                 ct_reuse_address = reuse_address\<rparr>, w')))
      | None \<Rightarrow>
          (\<lparr>ct_local_addr = local_addr, ct_preferred = remote_new remote_addrs,
            ct_fallback = None, ct_reuse_address = reuse_address\<rparr>, w))"

definition tcp_connect ::
    "'w net_api \<Rightarrow> socket_addr \<Rightarrow> ip_addr option \<Rightarrow> nat option \<Rightarrow> bool \<Rightarrow> 'w \<Rightarrow> nat io_result \<times> 'w" where
  "tcp_connect N addr local_addr handle reuse_address =
     io_bind (case addr of SocketV4 _ _ \<Rightarrow> new_v4 N | SocketV6 _ _ _ _ \<Rightarrow> new_v6 N) (\<lambda>builder.
     io_bind (if reuse_address then tcp_reuse_address N builder reuse_address else io_ret ()) (\<lambda>_.
     io_bind
       (case local_addr of
          Some ip \<Rightarrow> tcp_bind N builder (socket_addr_new ip 0)
        | None \<Rightarrow>
            if is_windows N then
              tcp_bind N builder
                (case addr of SocketV4 _ _ \<Rightarrow> SocketV4 0 0 | SocketV6 _ _ _ _ \<Rightarrow> SocketV6 0 0 0 0)
            else io_ret ()) (\<lambda>_.
     io_bind (to_tcp_stream N builder) (\<lambda>stream w.
       case connect_std N stream addr (case handle of Some h \<Rightarrow> h | None \<Rightarrow> handle_default N) w of
         (future, w') \<Rightarrow> (Ok future, w')))))"

function remote_poll ::
    "'w net_api \<Rightarrow> ip_addr option \<Rightarrow> nat option \<Rightarrow> bool \<Rightarrow> io_error option \<Rightarrow>
     connecting_tcp_remote \<Rightarrow> 'w \<Rightarrow> (nat io_poll \<times> connecting_tcp_remote \<times> 'w) outcome" where
  "remote_poll N la handle reuse err self w =
     (case r_current self of
        Some current \<Rightarrow>
          (case connect_poll N current w of
             (Ok ok, w') \<Rightarrow> Ret (Ok ok, self, w')
           | (Err e, w') \<Rightarrow>
               (case ip_addrs_next (r_addrs self) of
                  (Some addr, addrs) \<Rightarrow>
                    (case tcp_connect N addr la handle reuse w' of
                       (Err e', w'') \<Rightarrow> Ret (Err e', self\<lparr>r_addrs := addrs\<rparr>, w'')
                     | (Ok future, w'') \<Rightarrow>
                         remote_poll N la handle reuse (Some e)
                           (self\<lparr>r_addrs := addrs, r_current := Some future\<rparr>) w'')
                | (None, addrs) \<Rightarrow> Ret (Err e, self\<lparr>r_addrs := addrs\<rparr>, w')))
      | None \<Rightarrow>
          (case ip_addrs_next (r_addrs self) of
             (Some addr, addrs) \<Rightarrow>
               (case tcp_connect N addr la handle reuse w of
                  (Err e', w') \<Rightarrow> Ret (Err e', self\<lparr>r_addrs := addrs\<rparr>, w')
                | (Ok future, w') \<Rightarrow>
                    remote_poll N la handle reuse err
                      (self\<lparr>r_addrs := addrs, r_current := Some future\<rparr>) w')
           | (None, addrs) \<Rightarrow>
               (case err of
                  Some e \<Rightarrow> Ret (Err e, self\<lparr>r_addrs := addrs\<rparr>, w)
                | None \<Rightarrow> Panic (PanicMsg ''missing connect error''))))"
  by pat_completeness auto
termination
  by (relation "measure (\<lambda>(N, la, handle, reuse, err, self, w). length (ia_iter (r_addrs self)))")
    (auto simp: ip_addrs_next_def split: list.splits)

declare remote_poll.simps [simp del]

definition connecting_tcp_poll ::
    "'w net_api \<Rightarrow> nat option \<Rightarrow> connecting_tcp \<Rightarrow> 'w \<Rightarrow>
     (nat io_poll \<times> connecting_tcp \<times> 'w) outcome" where
  "connecting_tcp_poll N handle self w =
     (let la = ct_local_addr self; reuse = ct_reuse_address self;
          taken = self\<lparr>ct_fallback := None\<rparr> in
      case ct_fallback self of
        None \<Rightarrow>
          omap (\<lambda>(r, p, w'). (r, taken\<lparr>ct_preferred := p\<rparr>, w'))
            (remote_poll N la handle reuse None (ct_preferred self) w)
      | Some fallback \<Rightarrow>
          obind (remote_poll N la handle reuse None (ct_preferred self) w) (\<lambda>(r, p, w1).
            let self1 = taken\<lparr>ct_preferred := p\<rparr> in
            case r of
              Ok (Ready stream) \<Rightarrow> Ret (Ok (Ready stream), self1, w1)
            | Ok NotReady \<Rightarrow>
                (case delay_poll N (f_delay fallback) w1 of
                   (Ok (Ready _), w2) \<Rightarrow>
                     omap (\<lambda>(r', fr, w3).
                       case r' of
                         Ok (Ready stream) \<Rightarrow> (Ok (Ready stream), self1\<lparr>ct_preferred := fr\<rparr>, w3)
                       | Ok NotReady \<Rightarrow>
                           (Ok NotReady,
                            self1\<lparr>ct_fallback := Some (fallback\<lparr>f_remote := fr\<rparr>)\<rparr>, w3)
                       | Err _ \<Rightarrow> (Ok NotReady, self1, w3))
                       (remote_poll N la handle reuse None (f_remote fallback) w2)
                 | (Ok NotReady, w2) \<Rightarrow>
                     Ret (Ok NotReady, self1\<lparr>ct_fallback := Some fallback\<rparr>, w2)
                 | (Err _, w2) \<Rightarrow> Ret (Ok NotReady, self1, w2))
            | Err _ \<Rightarrow>
                omap (\<lambda>(r', p', w2). (r', self1\<lparr>ct_preferred := p'\<rparr>, w2))
                  (remote_poll N la handle reuse None (f_remote fallback) w1)))"

section \<open>One list of addresses\<close>

lemma ip_addrs_next_simps [simp]:
  "ia_iter a = [] \<Longrightarrow> ip_addrs_next a = (None, a)"
  "ia_iter a = x # xs \<Longrightarrow> ip_addrs_next a = (Some x, a\<lparr>ia_iter := xs\<rparr>)"
  by (simp_all add: ip_addrs_next_def)

text \<open>What a poll of a remote can do: one lemma per branch of the loop.\<close>

lemma remote_poll_current_ok:
  "r_current self = Some f \<Longrightarrow> connect_poll N f w = (Ok x, w') \<Longrightarrow>
   remote_poll N la h ru err self w = Ret (Ok x, self, w')"
  by (subst remote_poll.simps) simp

lemma remote_poll_current_last:
  "r_current self = Some f \<Longrightarrow> connect_poll N f w = (Err e, w') \<Longrightarrow> ia_iter (r_addrs self) = [] \<Longrightarrow>
   remote_poll N la h ru err self w = Ret (Err e, self, w')"
  by (subst remote_poll.simps) simp

lemma remote_poll_current_next:
  "r_current self = Some f \<Longrightarrow> connect_poll N f w = (Err e, w1) \<Longrightarrow>
   ia_iter (r_addrs self) = a # as \<Longrightarrow>
   remote_poll N la h ru err self w =
     (case tcp_connect N a la h ru w1 of
        (Err e', w2) \<Rightarrow> Ret (Err e', self\<lparr>r_addrs := r_addrs self\<lparr>ia_iter := as\<rparr>\<rparr>, w2)
      | (Ok g, w2) \<Rightarrow> remote_poll N la h ru (Some e)
          (self\<lparr>r_addrs := r_addrs self\<lparr>ia_iter := as\<rparr>, r_current := Some g\<rparr>) w2)"
  by (subst remote_poll.simps) simp

lemma remote_poll_start:
  "r_current self = None \<Longrightarrow> ia_iter (r_addrs self) = a # as \<Longrightarrow>
   remote_poll N la h ru err self w =
     (case tcp_connect N a la h ru w of
        (Err e', w2) \<Rightarrow> Ret (Err e', self\<lparr>r_addrs := r_addrs self\<lparr>ia_iter := as\<rparr>\<rparr>, w2)
      | (Ok g, w2) \<Rightarrow> remote_poll N la h ru err
          (self\<lparr>r_addrs := r_addrs self\<lparr>ia_iter := as\<rparr>, r_current := Some g\<rparr>) w2)"
  by (subst remote_poll.simps) simp

lemma remote_poll_nothing:
  "r_current self = None \<Longrightarrow> ia_iter (r_addrs self) = [] \<Longrightarrow>
   remote_poll N la h ru err self w =
     (case err of Some e \<Rightarrow> Ret (Err e, self, w) | None \<Rightarrow> Panic (PanicMsg ''missing connect error''))"
  by (subst remote_poll.simps) (simp split: option.splits)

lemmas remote_poll_branches =
  remote_poll_current_ok remote_poll_current_last remote_poll_current_next remote_poll_start
  remote_poll_nothing

text \<open>One round of the loop: it returns, or it goes on with one address less.\<close>

lemma remote_poll_round:
  obtains
    (ok) f x w' where "r_current self = Some f" "connect_poll N f w = (Ok x, w')"
      "remote_poll N la h ru err self w = Ret (Ok x, self, w')"
  | (last_failed) f e w' where "r_current self = Some f" "connect_poll N f w = (Err e, w')"
      "ia_iter (r_addrs self) = []" "remote_poll N la h ru err self w = Ret (Err e, self, w')"
  | (no_more) "r_current self = None" "ia_iter (r_addrs self) = []"
  | (opened) a as w1 q w2 err' where "ia_iter (r_addrs self) = a # as"
      "w1 = w \<or> (\<exists>f e'. connect_poll N f w = (Err e', w1))" "tcp_connect N a la h ru w1 = (q, w2)"
      "remote_poll N la h ru err self w =
        (case q of
           Err e \<Rightarrow> Ret (Err e, self\<lparr>r_addrs := r_addrs self\<lparr>ia_iter := as\<rparr>\<rparr>, w2)
         | Ok g \<Rightarrow> remote_poll N la h ru err'
             (self\<lparr>r_addrs := r_addrs self\<lparr>ia_iter := as\<rparr>, r_current := Some g\<rparr>) w2)"
proof (cases "r_current self")
  case None
  show thesis
  proof (cases "ia_iter (r_addrs self)")
    case (Cons a as)
    obtain q w2 where "tcp_connect N a la h ru w = (q, w2)" by fastforce
    with None Cons opened[of a as w q w2 err] show ?thesis by (simp add: remote_poll_start)
  qed (use None no_more in simp)
next
  case (Some f)
  obtain p w1 where p: "connect_poll N f w = (p, w1)" by fastforce
  show thesis
  proof (cases p)
    case (Inl e)
    show ?thesis
    proof (cases "ia_iter (r_addrs self)")
      case Nil
      with Some p Inl last_failed show ?thesis by (simp add: remote_poll_current_last)
    next
      case (Cons a as)
      obtain q w2 where "tcp_connect N a la h ru w1 = (q, w2)" by fastforce
      with Some p Inl Cons opened[of a as w1 q w2 "Some e"] show ?thesis
        by (auto simp: remote_poll_current_next)
    qed
  next
    case (Inr x)
    with Some p ok show ?thesis by (simp add: remote_poll_current_ok)
  qed
qed

text \<open>A predicate that holds of every way to return holds of the poll.\<close>

lemma remote_poll_induct [consumes 1, case_names ok last_failed connect_failed no_more next_address]:
  assumes "remote_poll N la h ru err self w = Ret (r, self', w')"
    and "\<And>self f w x w'. r_current self = Some f \<Longrightarrow> connect_poll N f w = (Ok x, w') \<Longrightarrow>
      P self w (Ok x) self w'"
    and "\<And>self f w e w'. r_current self = Some f \<Longrightarrow> connect_poll N f w = (Err e, w') \<Longrightarrow>
      ia_iter (r_addrs self) = [] \<Longrightarrow> P self w (Err e) self w'"
    and "\<And>self a as w w1 e w'. ia_iter (r_addrs self) = a # as \<Longrightarrow> tcp_connect N a la h ru w1 = (Err e, w') \<Longrightarrow>
      (w1 = w \<or> (\<exists>f e'. connect_poll N f w = (Err e', w1))) \<Longrightarrow>
      P self w (Err e) (self\<lparr>r_addrs := r_addrs self\<lparr>ia_iter := as\<rparr>\<rparr>) w'"
    and "\<And>self w e. r_current self = None \<Longrightarrow> ia_iter (r_addrs self) = [] \<Longrightarrow> P self w (Err e) self w"
    and "\<And>self a as w w1 g w2 r self' w'. ia_iter (r_addrs self) = a # as \<Longrightarrow>
      tcp_connect N a la h ru w1 = (Ok g, w2) \<Longrightarrow>
      (w1 = w \<or> (\<exists>f e'. connect_poll N f w = (Err e', w1))) \<Longrightarrow>
      P (self\<lparr>r_addrs := r_addrs self\<lparr>ia_iter := as\<rparr>, r_current := Some g\<rparr>) w2 r self' w' \<Longrightarrow>
      P self w r self' w'"
  shows "P self w r self' w'"
  using assms(1)
proof (induction "length (ia_iter (r_addrs self))" arbitrary: self err w)
  case 0
  then show ?case
    by (cases rule: remote_poll_round[of self N w la h ru err])
      (auto simp: remote_poll_nothing intro: assms(2,3,5) split: option.splits)
next
  case (Suc n)
  show ?case
  proof (cases rule: remote_poll_round[of self N w la h ru err])
    case (opened a as w1 q w2 err')
    then show ?thesis
      using Suc assms(4)[OF opened(1) _ opened(2)] assms(6)[OF opened(1) _ opened(2)]
      by (cases q) auto
  qed (use Suc assms(2) in auto)
qed

definition remote_live :: "connecting_tcp_remote \<Rightarrow> bool" where
  "remote_live self \<longleftrightarrow> r_current self \<noteq> None \<or> ia_iter (r_addrs self) \<noteq> []"

lemma remote_poll_panic_iff:
  "is_panic (remote_poll N la h ru err self w) \<longleftrightarrow> err = None \<and> \<not> remote_live self"
proof (induction "length (ia_iter (r_addrs self))" arbitrary: self err w)
  case 0
  then show ?case
    by (cases "r_current self")
      (auto simp: remote_live_def remote_poll_nothing remote_poll.simps[of N la h ru err self w]
        split: option.split prod.split sum.split)
next
  case (Suc n)
  then obtain a as where as: "ia_iter (r_addrs self) = a # as" "n = length as"
    by (metis length_Suc_conv)
  have "\<not> is_panic (remote_poll N la h ru err'
      (self\<lparr>r_addrs := r_addrs self\<lparr>ia_iter := as\<rparr>, r_current := Some g\<rparr>) w')" for err' g w'
    using Suc.hyps(1)[of "self\<lparr>r_addrs := r_addrs self\<lparr>ia_iter := as\<rparr>, r_current := Some g\<rparr>"] as
    by (simp add: remote_live_def)
  with as show ?case
    by (subst remote_poll.simps) (simp add: remote_live_def split: option.split prod.split sum.split)
qed

lemma remote_poll_pending:
  "remote_poll N la h ru err self w = Ret (Ok x, self', w') \<Longrightarrow> remote_live self'"
proof -
  assume "remote_poll N la h ru err self w = Ret (Ok x, self', w')"
  then have "\<forall>x'. Ok x = (Ok x' :: nat io_poll) \<longrightarrow> remote_live self'"
    by (induction rule: remote_poll_induct) (auto simp: remote_live_def)
  then show ?thesis by blast
qed

text \<open>Addresses are used from the front of the list, each at most once.\<close>

lemma remote_poll_suffix:
  "remote_poll N la h ru err self w = Ret (r, self', w') \<Longrightarrow>
   \<exists>used. ia_iter (r_addrs self) = used @ ia_iter (r_addrs self')"
  by (induction rule: remote_poll_induct) auto

section \<open>Which address wins\<close>

text \<open>
  \<open>refused N la h ru as w f e w'\<close>: starting in the world \<open>w\<close>, an attempt on each address of
  \<open>as\<close> in turn is opened and fails at once; \<open>f\<close> is the last attempt and \<open>e\<close> its error.
\<close>

inductive refused ::
    "'w net_api \<Rightarrow> ip_addr option \<Rightarrow> nat option \<Rightarrow> bool \<Rightarrow> socket_addr list \<Rightarrow> 'w \<Rightarrow>
     nat \<Rightarrow> io_error \<Rightarrow> 'w \<Rightarrow> bool"
  for N :: "'w net_api" and la :: "ip_addr option" and h :: "nat option" and ru :: bool where
  refused_one:
    "tcp_connect N a la h ru w = (Ok f, w1) \<Longrightarrow> connect_poll N f w1 = (Err e, w2) \<Longrightarrow>
     refused N la h ru [a] w f e w2"
| refused_more:
    "tcp_connect N a la h ru w = (Ok g, w1) \<Longrightarrow> connect_poll N g w1 = (Err d, w2) \<Longrightarrow>
     refused N la h ru as w2 f e w3 \<Longrightarrow> refused N la h ru (a # as) w f e w3"

inductive_cases refused_NilE: "refused N la h ru [] w f e w'"
inductive_cases refused_ConsE: "refused N la h ru (a # as) w f e w'"

lemma refused_nonempty: "refused N la h ru as w f e w' \<Longrightarrow> as \<noteq> []"
  by (auto elim: refused_NilE)

text \<open>What the loop does once the attempt \<open>f\<close> has failed with \<open>e\<close> and \<open>as\<close> are left.\<close>

definition after_refusal ::
    "'w net_api \<Rightarrow> ip_addr option \<Rightarrow> nat option \<Rightarrow> bool \<Rightarrow> socket_addr list \<Rightarrow> nat \<Rightarrow> io_error \<Rightarrow> 'w \<Rightarrow>
     (nat io_poll \<times> connecting_tcp_remote \<times> 'w) outcome" where
  "after_refusal N la h ru as f e w =
     (case as of
        [] \<Rightarrow> Ret (Err e, \<lparr>r_addrs = \<lparr>ia_iter = []\<rparr>, r_current = Some f\<rparr>, w)
      | a # as \<Rightarrow>
          (case tcp_connect N a la h ru w of
             (Err e', w') \<Rightarrow> Ret (Err e', \<lparr>r_addrs = \<lparr>ia_iter = as\<rparr>, r_current = Some f\<rparr>, w')
           | (Ok g, w') \<Rightarrow>
               remote_poll N la h ru (Some e) \<lparr>r_addrs = \<lparr>ia_iter = as\<rparr>, r_current = Some g\<rparr> w'))"

lemma remote_poll_refusal:
  "connect_poll N f w = (Err e, w') \<Longrightarrow>
   remote_poll N la h ru err \<lparr>r_addrs = \<lparr>ia_iter = as\<rparr>, r_current = Some f\<rparr> w =
     after_refusal N la h ru as f e w'"
  by (cases as) (simp_all add: after_refusal_def remote_poll_branches split: prod.split sum.split)

lemma after_refusal_refused:
  "refused N la h ru as w f' e' w' \<Longrightarrow>
   after_refusal N la h ru (as @ post) f e w = after_refusal N la h ru post f' e' w'"
proof (induction arbitrary: f e rule: refused.induct)
  case (refused_one a w f w1 e w2)
  then show ?case
    by (subst after_refusal_def) (simp add: remote_poll_refusal)
next
  case (refused_more a w g w1 d w2 as f e w3)
  then show ?case
    by (subst after_refusal_def) (simp add: remote_poll_refusal)
qed

lemma remote_poll_refused:
  assumes "refused N la h ru as w f e w'"
  shows "remote_poll N la h ru err (remote_new (ip_addrs_new (as @ post))) w =
    after_refusal N la h ru post f e w'"
proof -
  obtain a as' where as: "as = a # as'" using refused_nonempty[OF assms] by (cases as) auto
  from assms show ?thesis
    unfolding as
    by (elim refused_ConsE)
      (simp_all add: remote_new_def ip_addrs_new_def remote_poll_start remote_poll_refusal
        after_refusal_refused)
qed

lemma remote_poll_first_usable:
  assumes "refused N la h ru pre w f e w1"
    and "tcp_connect N a la h ru w1 = (Ok g, w2)" and "connect_poll N g w2 = (Ok x, w3)"
  shows "remote_poll N la h ru err (remote_new (ip_addrs_new (pre @ a # post))) w =
    Ret (Ok x, \<lparr>r_addrs = \<lparr>ia_iter = post\<rparr>, r_current = Some g\<rparr>, w3)"
  using assms by (simp add: remote_poll_refused after_refusal_def remote_poll_current_ok)

lemma remote_poll_all_refused:
  assumes "refused N la h ru as w f e w'"
  shows "remote_poll N la h ru err (remote_new (ip_addrs_new as)) w =
    Ret (Err e, \<lparr>r_addrs = \<lparr>ia_iter = []\<rparr>, r_current = Some f\<rparr>, w')"
  using remote_poll_refused[OF assms, of err "[]"] by (simp add: after_refusal_def)

section \<open>The race\<close>

definition ct_live :: "connecting_tcp \<Rightarrow> bool" where
  "ct_live c \<longleftrightarrow> remote_live (ct_preferred c) \<and>
     (case ct_fallback c of None \<Rightarrow> True | Some f \<Rightarrow> remote_live (f_remote f))"

lemma remote_live_new [simp]: "remote_live (remote_new a) \<longleftrightarrow> ia_iter a \<noteq> []"
  by (simp add: remote_live_def remote_new_def)

lemma connecting_tcp_new_live:
  "connecting_tcp_new N la addrs timeout ru w = (c, w') \<Longrightarrow> ct_live c \<longleftrightarrow> ia_iter addrs \<noteq> []"
  by (auto simp: connecting_tcp_new_def ct_live_def split_by_preference_filter ip_addrs_is_empty_def
      Let_def split: option.splits prod.splits if_splits list.splits)

lemma remote_poll_live:
  "remote_live self \<Longrightarrow> \<exists>r self' w'. remote_poll N la h ru err self w = Ret (r, self', w')"
  using remote_poll_panic_iff[of N la h ru err self w] by (auto simp: not_is_panic_iff)

text \<open>The branches of the race, for a connection that has something to try on both sides.\<close>

lemma race_cases:
  assumes "ct_live c"
  obtains
    (alone) r p w1 where "ct_fallback c = None"
      "remote_poll N (ct_local_addr c) h (ct_reuse_address c) None (ct_preferred c) w = Ret (r, p, w1)"
      "connecting_tcp_poll N h c w = Ret (r, c\<lparr>ct_preferred := p, ct_fallback := None\<rparr>, w1)"
  | (preferred_wins) f s p w1 where "ct_fallback c = Some f"
      "remote_poll N (ct_local_addr c) h (ct_reuse_address c) None (ct_preferred c) w =
        Ret (Ok (Ready s), p, w1)"
      "connecting_tcp_poll N h c w = Ret (Ok (Ready s), c\<lparr>ct_preferred := p, ct_fallback := None\<rparr>, w1)"
  | (too_early) f p w1 w2 where "ct_fallback c = Some f"
      "remote_poll N (ct_local_addr c) h (ct_reuse_address c) None (ct_preferred c) w =
        Ret (Ok NotReady, p, w1)"
      "delay_poll N (f_delay f) w1 = (Ok NotReady, w2)"
      "connecting_tcp_poll N h c w = Ret (Ok NotReady, c\<lparr>ct_preferred := p\<rparr>, w2)"
  | (delay_failed) f p w1 u w2 where "ct_fallback c = Some f"
      "remote_poll N (ct_local_addr c) h (ct_reuse_address c) None (ct_preferred c) w =
        Ret (Ok NotReady, p, w1)"
      "delay_poll N (f_delay f) w1 = (Err u, w2)"
      "connecting_tcp_poll N h c w = Ret (Ok NotReady, c\<lparr>ct_preferred := p, ct_fallback := None\<rparr>, w2)"
  | (fallback_polled) f p w1 u w2 r q w3 where "ct_fallback c = Some f"
      "remote_poll N (ct_local_addr c) h (ct_reuse_address c) None (ct_preferred c) w =
        Ret (Ok NotReady, p, w1)"
      "delay_poll N (f_delay f) w1 = (Ok (Ready u), w2)"
      "remote_poll N (ct_local_addr c) h (ct_reuse_address c) None (f_remote f) w2 = Ret (r, q, w3)"
      "connecting_tcp_poll N h c w = Ret (case r of
          Ok (Ready s) \<Rightarrow> (Ok (Ready s), c\<lparr>ct_preferred := q, ct_fallback := None\<rparr>, w3)
        | Ok NotReady \<Rightarrow>
            (Ok NotReady, c\<lparr>ct_preferred := p, ct_fallback := Some (f\<lparr>f_remote := q\<rparr>)\<rparr>, w3)
        | Err _ \<Rightarrow> (Ok NotReady, c\<lparr>ct_preferred := p, ct_fallback := None\<rparr>, w3))"
  | (preferred_failed) f p w1 e r q w2 where "ct_fallback c = Some f"
      "remote_poll N (ct_local_addr c) h (ct_reuse_address c) None (ct_preferred c) w =
        Ret (Err e, p, w1)"
      "remote_poll N (ct_local_addr c) h (ct_reuse_address c) None (f_remote f) w1 = Ret (r, q, w2)"
      "connecting_tcp_poll N h c w = Ret (r, c\<lparr>ct_preferred := q, ct_fallback := None\<rparr>, w2)"
proof -
  let ?poll = "remote_poll N (ct_local_addr c) h (ct_reuse_address c) None"
  obtain r p w1 where rp: "?poll (ct_preferred c) w = Ret (r, p, w1)"
    using assms remote_poll_live[of "ct_preferred c" N "ct_local_addr c" h "ct_reuse_address c" None w]
    by (auto simp: ct_live_def)
  show thesis
  proof (cases "ct_fallback c")
    case None
    with rp alone show ?thesis by (simp add: connecting_tcp_poll_def)
  next
    case (Some f)
    have fb: "\<exists>r q w3. ?poll (f_remote f) w2 = Ret (r, q, w3)" for w2
      using assms Some by (intro remote_poll_live) (simp add: ct_live_def)
    have c: "c\<lparr>ct_preferred := p, ct_fallback := Some f\<rparr> = c\<lparr>ct_preferred := p\<rparr>" using Some by simp
    consider s where "r = Ok (Ready s)" | e where "r = Err e" | "r = Ok NotReady"
      by (metis sumE async.exhaust)
    then show ?thesis
    proof cases
      case (1 s)
      with rp Some preferred_wins show ?thesis by (simp add: connecting_tcp_poll_def)
    next
      case (2 e)
      obtain r' q w2 where "?poll (f_remote f) w1 = Ret (r', q, w2)" using fb by blast
      with 2 rp Some preferred_failed show ?thesis by (simp add: connecting_tcp_poll_def)
    next
      case 3
      obtain d w2 where d: "delay_poll N (f_delay f) w1 = (d, w2)" by fastforce
      consider "d = Ok NotReady" | u where "d = Err u" | u where "d = Ok (Ready u)"
        by (metis sumE async.exhaust)
      then show ?thesis
      proof cases
        case 1
        with 3 d rp Some too_early c show ?thesis by (simp add: connecting_tcp_poll_def)
      next
        case (2 u)
        with 3 d rp Some delay_failed show ?thesis by (simp add: connecting_tcp_poll_def)
      next
        case (3 u)
        obtain r' q w3 where "?poll (f_remote f) w2 = Ret (r', q, w3)" using fb by blast
        with 3 \<open>r = Ok NotReady\<close> d rp Some fallback_polled show ?thesis
          by (simp add: connecting_tcp_poll_def split: sum.splits async.splits)
      qed
    qed
  qed
qed

text \<open>A live race never panics, and a pending race stays live.\<close>

lemma connecting_tcp_poll_live: "ct_live c \<Longrightarrow> \<not> is_panic (connecting_tcp_poll N h c w)"
  by (rule race_cases[of c N h w]) auto

lemma connecting_tcp_pending_live:
  assumes "ct_live c" and "connecting_tcp_poll N h c w = Ret (Ok NotReady, c', w')"
  shows "ct_live c'"
proof (rule race_cases[OF assms(1), of N h w])
  fix f p w1 u w2 r q w3
  assume "remote_poll N (ct_local_addr c) h (ct_reuse_address c) None (ct_preferred c) w =
      Ret (Ok NotReady, p, w1)"
    and "remote_poll N (ct_local_addr c) h (ct_reuse_address c) None (f_remote f) w2 = Ret (r, q, w3)"
    and *: "connecting_tcp_poll N h c w = Ret (case r of
          Ok (Ready s) \<Rightarrow> (Ok (Ready s), c\<lparr>ct_preferred := q, ct_fallback := None\<rparr>, w3)
        | Ok NotReady \<Rightarrow>
            (Ok NotReady, c\<lparr>ct_preferred := p, ct_fallback := Some (f\<lparr>f_remote := q\<rparr>)\<rparr>, w3)
        | Err _ \<Rightarrow> (Ok NotReady, c\<lparr>ct_preferred := p, ct_fallback := None\<rparr>, w3))"
  then have "remote_live p" and "r = Ok NotReady \<longrightarrow> remote_live q"
    by (auto dest: remote_poll_pending)
  with * assms(2) show ?thesis
    by (auto simp: ct_live_def split: sum.splits async.splits)
qed (use assms in \<open>auto simp: ct_live_def dest!: remote_poll_pending split: option.splits\<close>)

text \<open>The race as a future over its own state and the world.\<close>

definition race_poll ::
    "'w net_api \<Rightarrow> nat option \<Rightarrow> unit \<Rightarrow> connecting_tcp \<times> 'w \<Rightarrow>
     (nat io_poll \<times> connecting_tcp \<times> 'w) outcome" where
  "race_poll N h u s = (case s of (c, w) \<Rightarrow> connecting_tcp_poll N h c w)"

interpretation race: live_future "race_poll N h" "\<lambda>_. True" "\<lambda>s. ct_live (fst s)" for N h
  by unfold_locales
    (auto simp: race_poll_def connecting_tcp_poll_live split: prod.splits
      dest: connecting_tcp_pending_live)

text \<open>An error of the race is an error of its last remaining side.\<close>

lemma connecting_tcp_poll_Err:
  assumes "ct_live c" and "connecting_tcp_poll N h c w = Ret (Err e, c', w')"
    and "ct_fallback c = Some f"
  shows "\<exists>e' p w1. remote_poll N (ct_local_addr c) h (ct_reuse_address c) None (ct_preferred c) w =
      Ret (Err e', p, w1) \<and>
    remote_poll N (ct_local_addr c) h (ct_reuse_address c) None (f_remote f) w1 =
      Ret (Err e, ct_preferred c', w')"
  by (rule race_cases[OF assms(1), of N h w])
    (use assms in \<open>auto split: sum.splits async.splits\<close>)

section \<open>Where the addresses come from\<close>

text \<open>
  The typing of a race over the resolved addresses: both sides hold only addresses of the
  answer, and as long as there are two sides they hold different families.
\<close>

abbreviation left_addrs :: "connecting_tcp_remote \<Rightarrow> socket_addr set" where
  "left_addrs r \<equiv> set (ia_iter (r_addrs r))"

definition race_typed :: "ip_addrs \<Rightarrow> connecting_tcp \<Rightarrow> bool" where
  "race_typed addrs c \<longleftrightarrow>
     left_addrs (ct_preferred c) \<subseteq> set (ia_iter addrs) \<and>
     (case ct_fallback c of
        None \<Rightarrow> True
      | Some f \<Rightarrow> left_addrs (f_remote f) \<subseteq> set (ia_iter addrs) \<and>
          (\<forall>a\<in>left_addrs (ct_preferred c). \<forall>b\<in>left_addrs (f_remote f). is_ipv6 a \<noteq> is_ipv6 b))"

lemma connecting_tcp_new_typed:
  "connecting_tcp_new N la addrs timeout ru w = (c, w') \<Longrightarrow> race_typed addrs c"
  by (auto simp: connecting_tcp_new_def race_typed_def remote_new_def split_by_preference_filter
      ip_addrs_is_empty_def Let_def split: option.splits prod.splits if_splits list.splits)

lemma remote_poll_left:
  "remote_poll N la h ru err self w = Ret (r, self', w') \<Longrightarrow> left_addrs self' \<subseteq> left_addrs self"
  by (auto dest!: remote_poll_suffix)

lemma typed_lone:
  "race_typed addrs c \<Longrightarrow> left_addrs p \<subseteq> left_addrs (ct_preferred c) \<Longrightarrow>
   race_typed addrs (c\<lparr>ct_preferred := p, ct_fallback := None\<rparr>)"
  by (auto simp: race_typed_def)

lemma typed_swap:
  "race_typed addrs c \<Longrightarrow> ct_fallback c = Some f \<Longrightarrow> left_addrs q \<subseteq> left_addrs (f_remote f) \<Longrightarrow>
   race_typed addrs (c\<lparr>ct_preferred := q, ct_fallback := None\<rparr>)"
  by (auto simp: race_typed_def)

lemma typed_keep:
  "race_typed addrs c \<Longrightarrow> ct_fallback c = Some f \<Longrightarrow> left_addrs p \<subseteq> left_addrs (ct_preferred c) \<Longrightarrow>
   left_addrs q \<subseteq> left_addrs (f_remote f) \<Longrightarrow>
   race_typed addrs (c\<lparr>ct_preferred := p, ct_fallback := Some (f\<lparr>f_remote := q\<rparr>)\<rparr>)"
  by (simp add: race_typed_def) blast

lemma typed_preferred:
  "race_typed addrs c \<Longrightarrow> left_addrs p \<subseteq> left_addrs (ct_preferred c) \<Longrightarrow>
   race_typed addrs (c\<lparr>ct_preferred := p\<rparr>)"
  by (cases "ct_fallback c") (auto simp: race_typed_def)

lemma connecting_tcp_poll_typed:
  assumes "race_typed addrs c" and "ct_live c" and "connecting_tcp_poll N h c w = Ret (r, c', w')"
  shows "race_typed addrs c'"
proof (rule race_cases[OF assms(2), of N h w])
  fix f p w1 u w2 r q w3
  assume "ct_fallback c = Some f"
    and "remote_poll N (ct_local_addr c) h (ct_reuse_address c) None (ct_preferred c) w = Ret (Ok NotReady, p, w1)"
    and "remote_poll N (ct_local_addr c) h (ct_reuse_address c) None (f_remote f) w2 = Ret (r, q, w3)"
    and "connecting_tcp_poll N h c w = Ret (case r of
          Ok (Ready s) \<Rightarrow> (Ok (Ready s), c\<lparr>ct_preferred := q, ct_fallback := None\<rparr>, w3)
        | Ok NotReady \<Rightarrow>
            (Ok NotReady, c\<lparr>ct_preferred := p, ct_fallback := Some (f\<lparr>f_remote := q\<rparr>)\<rparr>, w3)
        | Err _ \<Rightarrow> (Ok NotReady, c\<lparr>ct_preferred := p, ct_fallback := None\<rparr>, w3))"
  with assms(1,3) show ?thesis
    by (auto dest!: remote_poll_left intro: typed_keep typed_lone typed_swap
        split: sum.splits async.splits)
qed (use assms(1,3) in \<open>auto dest!: remote_poll_left intro: typed_lone typed_swap typed_preferred\<close>)

interpretation race_types:
  live_future "race_poll N h" "\<lambda>s. race_typed addrs (fst s)" "\<lambda>s. ct_live (fst s)" for N h addrs
  by unfold_locales
    (auto simp: race_poll_def connecting_tcp_poll_live split: prod.splits
      dest: connecting_tcp_pending_live connecting_tcp_poll_typed)

section \<open>Invariants of the world\<close>

definition keeps :: "('w \<Rightarrow> bool) \<Rightarrow> ('w \<Rightarrow> 'a \<times> 'w) \<Rightarrow> bool" where
  "keeps I m \<longleftrightarrow> (\<forall>w. I w \<longrightarrow> I (snd (m w)))"

lemma keepsD: "keeps I m \<Longrightarrow> m w = (r, w') \<Longrightarrow> I w \<Longrightarrow> I w'"
  by (metis keeps_def snd_conv)

lemma keeps_io_ret [intro]: "keeps I (io_ret x)"
  by (simp add: keeps_def io_ret_def)

lemma keeps_io_bind [intro]:
  assumes "keeps I m" and "\<And>x. keeps I (f x)"
  shows "keeps I (io_bind m f)"
  unfolding keeps_def
proof (intro allI impI)
  fix w assume "I w"
  obtain q w1 where q: "m w = (q, w1)" by fastforce
  have "I w1" by (rule keepsD[OF assms(1) q \<open>I w\<close>])
  with q assms(2) show "I (snd (io_bind m f w))"
    by (cases q) (auto simp: io_bind_def keeps_def)
qed

definition net_keeps :: "'w net_api \<Rightarrow> ('w \<Rightarrow> bool) \<Rightarrow> bool" where
  "net_keeps N I \<longleftrightarrow>
     keeps I (new_v4 N) \<and> keeps I (new_v6 N) \<and>
     (\<forall>b x. keeps I (tcp_reuse_address N b x)) \<and> (\<forall>b a. keeps I (tcp_bind N b a)) \<and>
     (\<forall>b. keeps I (to_tcp_stream N b)) \<and> (\<forall>s a h. keeps I (connect_std N s a h)) \<and>
     (\<forall>f. keeps I (connect_poll N f)) \<and> (\<forall>t. keeps I (delay_new N t)) \<and>
     (\<forall>d. keeps I (delay_poll N d)) \<and> (\<forall>s k. keeps I (set_keepalive N s k)) \<and>
     (\<forall>s b. keeps I (set_nodelay N s b)) \<and> (\<forall>s. keeps I (peer_addr N s))"

lemma keeps_tcp_connect: "net_keeps N I \<Longrightarrow> keeps I (tcp_connect N a la h ru)"
  unfolding tcp_connect_def
  by (intro keeps_io_bind; cases a; cases la)
    (auto simp: net_keeps_def keeps_def io_ret_def split: prod.split; metis snd_conv)+

lemma remote_poll_keeps:
  assumes "net_keeps N I" and "remote_poll N la h ru err self w = Ret (r, self', w')"
  shows "I w \<Longrightarrow> I w'"
proof -
  have conn: "keeps I (connect_poll N f)" for f using assms(1) by (simp add: net_keeps_def)
  have tcp: "keeps I (tcp_connect N a la h ru)" for a by (rule keeps_tcp_connect[OF assms(1)])
  from assms(2) show "I w \<Longrightarrow> I w'"
    by (induction rule: remote_poll_induct) (meson keepsD[OF conn] keepsD[OF tcp])+
qed

lemma connecting_tcp_new_keeps:
  "net_keeps N I \<Longrightarrow> keeps I (connecting_tcp_new N la addrs timeout ru)"
  by (auto simp: keeps_def net_keeps_def connecting_tcp_new_def Let_def split: option.split prod.split)
    (metis snd_conv)+

lemma connecting_tcp_poll_keeps:
  assumes "net_keeps N I" and "ct_live c" and "connecting_tcp_poll N h c w = Ret (r, c', w')" and "I w"
  shows "I w'"
proof -
  note remote = remote_poll_keeps[OF assms(1)]
  have delay: "keeps I (delay_poll N d)" for d using assms(1) by (simp add: net_keeps_def)
  show ?thesis
    by (rule race_cases[OF assms(2), of N h w])
      (use assms(3,4) in \<open>auto dest!: remote keepsD[OF delay] split: sum.splits async.splits\<close>)
qed

section \<open>A network that answers\<close>

text \<open>
  \<open>patience\<close> bounds how often the network will still leave a connection attempt pending: no
  operation raises it, and every pending poll of an attempt lowers it. Nothing is assumed
  about the timer.
\<close>

definition net_patient :: "'w net_api \<Rightarrow> ('w \<Rightarrow> nat) \<Rightarrow> bool" where
  "net_patient N patience \<longleftrightarrow>
     (\<forall>n. net_keeps N (\<lambda>w. patience w \<le> n)) \<and>
     (\<forall>f w w'. connect_poll N f w = (Ok NotReady, w') \<longrightarrow> patience w' < patience w)"

lemma net_patient_keeps: "net_patient N p \<Longrightarrow> net_keeps N (\<lambda>w. p w \<le> n)"
  by (simp add: net_patient_def)

lemma net_patient_attempt:
  "net_patient N p \<Longrightarrow> connect_poll N f w = (Ok NotReady, w') \<Longrightarrow> p w' < p w"
  by (simp add: net_patient_def)

lemma remote_poll_calm:
  assumes "net_patient N p" and "remote_poll N la h ru err self w = Ret (r, self', w')"
  shows "p w' \<le> p w" and "r = Ok NotReady \<Longrightarrow> p w' < p w"
proof -
  note keeps = net_patient_keeps[OF assms(1)]
  show "p w' \<le> p w" by (rule remote_poll_keeps[OF keeps assms(2) order.refl])
  have attempt: "p w1 \<le> p w" if "w1 = w \<or> (\<exists>f e'. connect_poll N f w = (Err e', w1))" for w w1
    using that keeps[of "p w"] by (auto simp: net_keeps_def keeps_def) (metis order.refl snd_conv)
  have opened: "p w2 \<le> p w1" if "tcp_connect N a la h ru w1 = (q, w2)" for a q w1 w2
    by (rule keepsD[OF keeps_tcp_connect[OF keeps] that order.refl])
  from assms(2) show "r = Ok NotReady \<Longrightarrow> p w' < p w"
  proof (induction rule: remote_poll_induct)
    case (next_address self a as w w1 g w2 r self' w')
    with attempt opened show ?case by (meson order.strict_trans2)
  qed (auto dest: net_patient_attempt[OF assms(1)])
qed

lemma connecting_tcp_poll_calm:
  assumes "net_patient N p" and "ct_live c" and "connecting_tcp_poll N h c w = Ret (r, c', w')"
  shows "p w' \<le> p w" and "r = Ok NotReady \<Longrightarrow> p w' < p w"
proof -
  note keeps = net_patient_keeps[OF assms(1)]
  have remote: "p w' \<le> p w \<and> (r = Ok NotReady \<longrightarrow> p w' < p w)"
    if "remote_poll N la h ru err self w = Ret (r, self', w')" for la h ru err self w r self' w'
    using remote_poll_calm[OF assms(1) that] by blast
  show "p w' \<le> p w" by (rule connecting_tcp_poll_keeps[OF keeps assms(2,3) order.refl])
  have delay: "p w2 \<le> p w1" if "delay_poll N d w1 = (q, w2)" for d q w1 w2
    using keepsD[of "\<lambda>w. p w \<le> p w1" "delay_poll N d" w1 q w2] that keeps[of "p w1"]
    by (simp add: net_keeps_def)
  assume r: "r = Ok NotReady"
  show "p w' < p w"
    by (rule race_cases[OF assms(2), of N h w])
      (use assms(3) r in \<open>auto dest!: remote delay split: sum.splits async.splits\<close>)
qed

interpretation race_progress:
  progressing_future "race_poll N h" "\<lambda>_. net_patient N p" "\<lambda>s. ct_live (fst s)" "\<lambda>s. p (snd s)" for N h p
  by unfold_locales
    (auto simp: race_poll_def connecting_tcp_poll_live split: prod.splits
      dest: connecting_tcp_pending_live connecting_tcp_poll_calm)

section \<open>An instance of the outside world\<close>

text \<open>A world that is the list of answers to the polls of connection attempts; all else succeeds.\<close>

definition sample_net :: "nat io_poll list net_api" where
  "sample_net =
     \<lparr>new_v4 = io_ret 4, new_v6 = io_ret 6, tcp_reuse_address = (\<lambda>b x. io_ret ()),
      tcp_bind = (\<lambda>b a. io_ret ()), to_tcp_stream = (\<lambda>b. io_ret b),
      connect_std = (\<lambda>s a h w. (s, w)), handle_default = 0, is_windows = False,
      connect_poll = (\<lambda>f w. case w of [] \<Rightarrow> (Ok NotReady, []) | x # xs \<Rightarrow> (x, xs)),
      delay_new = (\<lambda>t w. (t, w)), delay_poll = (\<lambda>d w. (Ok NotReady, w)),
      set_keepalive = (\<lambda>s k. io_ret ()), set_nodelay = (\<lambda>s b. io_ret ()),
      peer_addr = (\<lambda>s. io_ret (SocketV4 0 80))\<rparr>"

lemma sample_tcp_connect:
  "tcp_connect sample_net (SocketV4 a p) None None False w = (Ok 4, w)"
  "tcp_connect sample_net (SocketV6 b p f s) None None False w = (Ok 6, w)"
  by (simp_all add: tcp_connect_def sample_net_def io_bind_def io_ret_def)

lemma sample_connect_poll: "connect_poll sample_net f (x # w) = (x, w)"
  by (simp add: sample_net_def)

section \<open>Properties\<close>

text \<open>
  (C11) Addresses are tried in their order until one works: when the attempts on a first group of
  addresses are refused one after the other and the attempt on the next address is not, one
  poll returns what that attempt returned and the addresses behind it stay untried.
\<close>

theorem connects_to_first_usable_address:
  assumes "refused N la h ru pre w f e w1"
    and "tcp_connect N a la h ru w1 = (Ok g, w2)" and "connect_poll N g w2 = (Ok x, w3)"
  shows "remote_poll N la h ru None (remote_new (ip_addrs_new (pre @ a # post))) w =
    Ret (Ok x, \<lparr>r_addrs = \<lparr>ia_iter = post\<rparr>, r_current = Some g\<rparr>, w3)"
  by (rule remote_poll_first_usable[OF assms])

theorem connects_to_first_usable_address_witness:
  "remote_poll sample_net None None False None
     (remote_new (ip_addrs_new ([SocketV4 1 80] @ SocketV6 2 80 0 0 # [SocketV4 3 80])))
     [Err (IoError Other ''refused''), Ok (Ready 8)] =
   Ret (Ok (Ready 8), \<lparr>r_addrs = \<lparr>ia_iter = [SocketV4 3 80]\<rparr>, r_current = Some 6\<rparr>, [])"
  by (rule connects_to_first_usable_address[OF refused_one[OF sample_tcp_connect(1) sample_connect_poll]
        sample_tcp_connect(2) sample_connect_poll])

text \<open>
  Only when every address was refused is there an error, and it is the error of the last
  address.
\<close>

lemma all_refused_gives_last_error:
  assumes "refused N la h ru as w f e w'"
  shows "remote_poll N la h ru None (remote_new (ip_addrs_new as)) w =
    Ret (Err e, \<lparr>r_addrs = \<lparr>ia_iter = []\<rparr>, r_current = Some f\<rparr>, w')"
  by (rule remote_poll_all_refused[OF assms])

lemma all_refused_gives_last_error_witness:
  "remote_poll sample_net None None False None
     (remote_new (ip_addrs_new [SocketV4 1 80, SocketV6 2 80 0 0]))
     [Err (IoError Other ''refused''), Err (IoError Other ''unreachable'')] =
   Ret (Err (IoError Other ''unreachable''), \<lparr>r_addrs = \<lparr>ia_iter = []\<rparr>, r_current = Some 6\<rparr>, [])"
  by (rule all_refused_gives_last_error[OF refused_more[OF sample_tcp_connect(1) sample_connect_poll
        refused_one[OF sample_tcp_connect(2) sample_connect_poll]]])

text \<open>
  Polling a list of addresses panics in exactly one situation: there is no attempt under way
  and no address to try.
\<close>

lemma remote_poll_panics_iff:
  "is_panic (remote_poll N la h ru None self w) \<longleftrightarrow>
     r_current self = None \<and> ia_iter (r_addrs self) = []"
  by (simp add: remote_poll_panic_iff remote_live_def)

text \<open>
  The race of two address families never panics when it was started with at least one
  address: no sequence of polls of a new \<open>ConnectingTcp\<close> panics up to the poll that completes
  it, whatever the attempts, the timer and the sockets do.
\<close>

lemma race_never_panics:
  assumes "ia_iter addrs \<noteq> []" and "connecting_tcp_new N la addrs timeout ru w = (c, w')"
  shows "\<not> is_panic (run_polls (race_poll N h) polls (c, w'))"
  using race.live_run[of "(c, w')" N h polls] connecting_tcp_new_live[OF assms(2)] assms(1) by simp

lemma race_never_panics_witness:
  "\<not> is_panic (run_polls (race_poll sample_net None) [(), ()]
     (\<lparr>ct_local_addr = None, ct_preferred = remote_new \<lparr>ia_iter = [SocketV4 1 80]\<rparr>,
       ct_fallback = None, ct_reuse_address = False\<rparr>, [Ok NotReady, Err (IoError Other ''x'')]))"
  by (rule race_never_panics[where addrs="\<lparr>ia_iter = [SocketV4 1 80]\<rparr>" and timeout=None and la=None
        and ru=False and w="[Ok NotReady, Err (IoError Other ''x'')]"])
    (simp_all add: connecting_tcp_new_def)

text \<open>
  (C27) A race with a fallback gives up only when both sides have failed: an error means that the
  preferred side failed in this poll, that the fallback side, polled right after it, failed as
  well, and that the error is the fallback's.
\<close>

theorem race_error_means_both_failed:
  assumes "ct_live c" and "connecting_tcp_poll N h c w = Ret (Err e, c', w')"
    and "ct_fallback c = Some f"
  shows "\<exists>e' p w1. remote_poll N (ct_local_addr c) h (ct_reuse_address c) None (ct_preferred c) w =
      Ret (Err e', p, w1) \<and>
    remote_poll N (ct_local_addr c) h (ct_reuse_address c) None (f_remote f) w1 =
      Ret (Err e, ct_preferred c', w')"
  by (rule connecting_tcp_poll_Err[OF assms])

theorem race_error_means_both_failed_witness:
  "\<exists>e' p w1. remote_poll sample_net None None False None (remote_new \<lparr>ia_iter = [SocketV4 1 80]\<rparr>)
      [Err (IoError Other ''a''), Err (IoError Other ''b'')] = Ret (Err e', p, w1) \<and>
    remote_poll sample_net None None False None (remote_new \<lparr>ia_iter = [SocketV6 2 80 0 0]\<rparr>) w1 =
      Ret (Err (IoError Other ''b''), \<lparr>r_addrs = \<lparr>ia_iter = []\<rparr>, r_current = Some 6\<rparr>, [])"
proof -
  let ?f = "\<lparr>f_delay = 0, f_remote = remote_new \<lparr>ia_iter = [SocketV6 2 80 0 0]\<rparr>\<rparr>"
  let ?c = "\<lparr>ct_local_addr = None, ct_preferred = remote_new \<lparr>ia_iter = [SocketV4 1 80]\<rparr>,
    ct_fallback = Some ?f, ct_reuse_address = False\<rparr>"
  let ?c' = "\<lparr>ct_local_addr = None, ct_preferred = \<lparr>r_addrs = \<lparr>ia_iter = []\<rparr>, r_current = Some 6\<rparr>,
    ct_fallback = None, ct_reuse_address = False\<rparr>"
  have "connecting_tcp_poll sample_net None ?c [Err (IoError Other ''a''), Err (IoError Other ''b'')] =
      Ret (Err (IoError Other ''b''), ?c', [])"
    by (simp add: connecting_tcp_poll_def remote_new_def remote_poll_start remote_poll_current_last
        sample_tcp_connect sample_connect_poll)
  from race_error_means_both_failed[OF _ this, of ?f] show ?thesis by (simp add: ct_live_def)
qed

text \<open>
  (C15) A race is well typed in every state it can reach, and reaches no panic: from its creation over
  any non-empty list of resolved addresses and through any number of polls, it does not panic,
  both sides hold only addresses of the answer, and as long as there is a fallback side, no
  family is on both sides.
\<close>

theorem race_stays_typed:
  assumes "connecting_tcp_new N la addrs timeout ru w0 = (c, w1)" and "ia_iter addrs \<noteq> []"
  shows "\<exists>r c' w'. run_polls (race_poll N h) es (c, w) = Ret (r, c', w') \<and> race_typed addrs c'"
proof -
  have "race_typed addrs c" "ct_live c"
    using connecting_tcp_new_typed[OF assms(1)] connecting_tcp_new_live[OF assms(1)] assms(2) by simp_all
  then show ?thesis
    using race_types.live_run[of addrs "(c, w)" N h es] race_types.live_run_inv[of addrs "(c, w)" N h es]
    by (cases "run_polls (race_poll N h) es (c, w)") auto
qed

theorem race_stays_typed_witness:
  "\<exists>r c' w'. run_polls (race_poll sample_net None) [(), ()]
    (\<lparr>ct_local_addr = None, ct_preferred = remote_new \<lparr>ia_iter = [SocketV4 1 80, SocketV4 3 80]\<rparr>,
      ct_fallback = Some \<lparr>f_delay = 300, f_remote = remote_new \<lparr>ia_iter = [SocketV6 2 80 0 0]\<rparr>\<rparr>,
      ct_reuse_address = False\<rparr>, [Ok NotReady, Err (IoError Other ''x'')]) = Ret (r, c', w') \<and>
    race_typed \<lparr>ia_iter = [SocketV4 1 80, SocketV6 2 80 0 0, SocketV4 3 80]\<rparr> c'"
  by (rule race_stays_typed[where N=sample_net and la=None and timeout="Some 300" and ru=False and ?w0.0="[]" and ?w1.0="[]"])
    (simp_all add: connecting_tcp_new_def split_by_preference_filter ip_addrs_is_empty_def sample_net_def)

end
