(* ===== verification/Ares.thy ===== *)
theory Ares
  imports Dns
begin

text \<open>
  The caching resolver, \<open>src/src/http/ares.rs\<close>. \<open>resolver_cache\<close> is the content of the shared
  \<open>Arc<Mutex<HashMap<..>>>\<close> with the poison flag of its mutex; it is passed from call to
  call, since every clone of the handle sees the same map. \<open>Instant::now()\<close> is an argument, and
  the c-ares query is a handle whose polls are answered by the environment.
\<close>

section \<open>The cache\<close>

type_synonym instant = nat

record resolver_cache =
  rc_map :: "rstr \<rightharpoonup> ip_addr list \<times> instant"
  rc_poisoned :: bool

definition resolver_cache_default :: resolver_cache where
  "resolver_cache_default = \<lparr>rc_map = Map.empty, rc_poisoned = False\<rparr>"

definition cache_lookup :: "instant \<Rightarrow> resolver_cache \<Rightarrow> rstr \<Rightarrow> ip_addr list option" where
  "cache_lookup now cache name =
     (if rc_poisoned cache then None
      else case rc_map cache name of
        None \<Rightarrow> None
      | Some (vec, ttl) \<Rightarrow> if ttl < now then Some vec else None)"

definition cache_add ::
    "instant \<Rightarrow> resolver_cache \<Rightarrow> rstr \<Rightarrow> ip_addr list \<Rightarrow> resolver_cache outcome" where
  "cache_add now cache name addrs =
     (if rc_poisoned cache then Panic UnwrapNone
      else Ret (cache\<lparr>rc_map := (rc_map cache)(name \<mapsto> (addrs, now))\<rparr>))"

section \<open>The future\<close>

type_synonym query = nat

datatype cares_future =
    FromResolver query rstr
  | FromCache "ip_addr list"
  | Finished

record cares_state =
  cs_future :: cares_future
  cs_cache :: resolver_cache

text \<open>During one poll the environment gives the time and the answer of the c-ares query.\<close>

record cares_env =
  ce_now :: instant
  ce_answer :: "query \<Rightarrow> string + 32 word list async"

definition cares_poll ::
    "cares_env \<Rightarrow> cares_state \<Rightarrow> (ip_addr list io_poll \<times> cares_state) outcome" where
  "cares_poll env self =
     (let taken = self\<lparr>cs_future := Finished\<rparr> in
      case cs_future self of
        FromResolver fut name \<Rightarrow>
          (case ce_answer env fut of
             Ok (Ready vals) \<Rightarrow>
               (let items = map IpV4 vals in
                omap (\<lambda>cache. (Ok (Ready items), taken\<lparr>cs_cache := cache\<rparr>))
                  (cache_add (ce_now env) (cs_cache self) name items))
           | Err err \<Rightarrow> Ret (Err (IoError Other err), taken)
           | Ok NotReady \<Rightarrow> Ret (Ok NotReady, self))
      | FromCache vec \<Rightarrow> Ret (Ok (Ready vec), taken)
      | Finished \<Rightarrow> Panic (PanicMsg ''cannot poll resolved future''))"

text \<open>\<open>query_a\<close> is the handle that the c-ares resolver returns for a name.\<close>

definition cares_resolve ::
    "(rstr \<Rightarrow> query) \<Rightarrow> instant \<Rightarrow> resolver_cache \<Rightarrow> name \<Rightarrow> cares_future" where
  "cares_resolve query_a now cache n =
     (case cache_lookup now cache (name_as_str n) of
        Some values \<Rightarrow> FromCache values
      | None \<Rightarrow> FromResolver (query_a (name_as_str n)) (name_as_str n))"

text \<open>
  The resolver with its cache and the c-ares channel; \<open>channel\<close> is the result of
  \<open>FutureResolver::new()\<close>, whose failure is a panic. \<open>ARES\<close> is the shared instance behind the
  default connector.
\<close>

record 'q cares_impl =
  ci_cache :: resolver_cache
  ci_resolver :: 'q

definition cares_impl_new :: "string + 'q \<Rightarrow> 'q cares_impl outcome" where
  "cares_impl_new channel =
     (case channel of
        Err e \<Rightarrow> Panic (unwrap_failed e)
      | Ok resolver \<Rightarrow> Ret \<lparr>ci_cache = resolver_cache_default, ci_resolver = resolver\<rparr>)"

definition ARES :: "string + 'q \<Rightarrow> 'q cares_impl outcome" where
  "ARES channel = cares_impl_new channel"

section \<open>The future keeps its contract\<close>

definition cares_inv :: "cares_state \<Rightarrow> bool" where
  "cares_inv s \<longleftrightarrow> \<not> rc_poisoned (cs_cache s)"

definition cares_live :: "cares_state \<Rightarrow> bool" where
  "cares_live s \<longleftrightarrow> cs_future s \<noteq> Finished"

text \<open>The mutex is poisoned only by a panic of its holder, and no holder panics.\<close>

lemma cares_poll_inv: "cares_poll env s = Ret (r, s') \<Longrightarrow> cares_inv s \<Longrightarrow> cares_inv s'"
  by (auto simp: cares_inv_def cares_poll_def cache_add_def Let_def omap_eq_Ret_iff
      split: cares_future.splits sum.splits async.splits if_splits)

lemma cares_poll_panic_iff:
  "cares_inv s \<Longrightarrow> is_panic (cares_poll env s) \<longleftrightarrow> \<not> cares_live s"
  by (auto simp: cares_inv_def cares_live_def cares_poll_def Let_def cache_add_def
      split: cares_future.splits sum.splits async.splits)

lemma cares_poll_live_iff:
  "cares_poll env s = Ret (r, s') \<Longrightarrow> cares_live s' \<longleftrightarrow> r = Ok NotReady"
  by (auto simp: cares_live_def cares_poll_def Let_def omap_eq_Ret_iff
      split: cares_future.splits sum.splits async.splits)

interpretation cares: one_shot_future cares_poll cares_inv cares_live
  by unfold_locales (auto simp: cares_poll_panic_iff cares_poll_live_iff dest: cares_poll_inv)

section \<open>Lookups\<close>

lemma cache_lookup_added:
  assumes "cache_add t cache n as = Ret cache'"
  shows "cache_lookup now cache' m =
    (if m = n then (if t < now then Some as else None) else cache_lookup now cache m)"
  using assms by (auto simp: cache_add_def cache_lookup_def split: if_splits option.splits)

lemma cares_poll_from_resolver:
  assumes "cs_future s = FromResolver q n" and "ce_answer env q = Ok (Ready vals)"
    and "\<not> rc_poisoned (cs_cache s)"
  shows "\<exists>cache. cares_poll env s =
      Ret (Ok (Ready (map IpV4 vals)), s\<lparr>cs_future := Finished, cs_cache := cache\<rparr>) \<and>
    cache_add (ce_now env) (cs_cache s) n (map IpV4 vals) = Ret cache"
  using assms by (simp add: cares_poll_def Let_def cache_add_def)

section \<open>Properties\<close>

text \<open>
  (C30) What was resolved is remembered: once a query for a name has completed, resolving the
  same name at any later instant gives the same addresses from the cache, without a new query,
  and other names are not affected. The entry has no expiry: any later instant qualifies.
\<close>

theorem resolved_name_is_cached:
  assumes "cs_future s = FromResolver q n" and "ce_answer env q = Ok (Ready vals)"
    and "\<not> rc_poisoned (cs_cache s)" and "ce_now env < later" and "m \<noteq> n"
  shows "\<exists>s'. cares_poll env s = Ret (Ok (Ready (map IpV4 vals)), s') \<and>
    cares_resolve query_a later (cs_cache s') (name_new n) = FromCache (map IpV4 vals) \<and>
    cares_resolve query_a later (cs_cache s') (name_new m) =
      cares_resolve query_a later (cs_cache s) (name_new m)"
proof -
  obtain cache where c: "cares_poll env s =
      Ret (Ok (Ready (map IpV4 vals)), s\<lparr>cs_future := Finished, cs_cache := cache\<rparr>)"
    "cache_add (ce_now env) (cs_cache s) n (map IpV4 vals) = Ret cache"
    using cares_poll_from_resolver[OF assms(1-3)] by blast
  with cache_lookup_added[OF c(2)] assms(4,5) show ?thesis
    by (simp add: cares_resolve_def name_as_str_def name_new_def)
qed

theorem resolved_name_is_cached_witness:
  "cares_resolve (\<lambda>n. 0) 6 (resolver_cache_default\<lparr>rc_map := [lit ''a'' \<mapsto> ([IpV4 9], 5)]\<rparr>) (name_new (lit ''a'')) =
     FromCache [IpV4 9]"
proof -
  let ?s = "\<lparr>cs_future = FromResolver 1 (lit ''a''), cs_cache = resolver_cache_default\<rparr>"
  let ?env = "\<lparr>ce_now = 5, ce_answer = \<lambda>q. Ok (Ready [9])\<rparr>"
  have p: "cares_poll ?env ?s = Ret (Ok (Ready [IpV4 9]),
      \<lparr>cs_future = Finished, cs_cache = resolver_cache_default\<lparr>rc_map := [lit ''a'' \<mapsto> ([IpV4 9], 5)]\<rparr>\<rparr>)"
    by (simp add: cares_poll_def cache_add_def resolver_cache_default_def Let_def)
  have "\<exists>s'. cares_poll ?env ?s = Ret (Ok (Ready (map IpV4 [9])), s') \<and>
    cares_resolve (\<lambda>n. 0) 6 (cs_cache s') (name_new (lit ''a'')) = FromCache (map IpV4 [9]) \<and>
    cares_resolve (\<lambda>n. 0) 6 (cs_cache s') (name_new (lit ''b'')) =
      cares_resolve (\<lambda>n. 0) 6 (cs_cache ?s) (name_new (lit ''b''))"
    by (rule resolved_name_is_cached[where q=1 and n="lit ''a''" and m="lit ''b''"])
      (simp_all add: resolver_cache_default_def lit_def)
  with p show ?thesis by auto
qed

text \<open>
  The resolver future follows the contract of a future: from any state it can be in before
  it completes, no sequence of polls panics up to and including the poll that completes it,
  and every poll after that one panics.
\<close>

lemma cares_future_one_shot:
  assumes "cares_inv s" and "cares_live s"
  shows "\<not> is_panic (run_polls cares_poll envs s) \<and>
    (\<forall>r s'. run_polls cares_poll envs s = Ret (r, s') \<longrightarrow> r \<noteq> Ok NotReady \<longrightarrow> is_panic (cares_poll env s'))"
  using cares.live_run[OF assms] cares.poll_after_completion[OF assms] by blast

lemma cares_future_one_shot_witness:
  "is_panic (cares_poll \<lparr>ce_now = 2, ce_answer = \<lambda>q. Ok NotReady\<rparr>
     \<lparr>cs_future = Finished, cs_cache = resolver_cache_default\<rparr>)"
proof -
  let ?s = "\<lparr>cs_future = FromCache [IpV4 1], cs_cache = resolver_cache_default\<rparr>"
  let ?env = "\<lparr>ce_now = 2, ce_answer = \<lambda>q. Ok NotReady\<rparr>"
  have "cares_inv ?s" and "cares_live ?s"
    by (simp_all add: cares_inv_def cares_live_def resolver_cache_default_def)
  moreover have "run_polls cares_poll [?env] ?s =
      Ret (Ok (Ready [IpV4 1]), \<lparr>cs_future = Finished, cs_cache = resolver_cache_default\<rparr>)"
    by (simp add: cares_poll_def)
  ultimately show ?thesis using cares_future_one_shot[of ?s "[?env]" ?env] by blast
qed

end
