(* ===== verification/Combinators.thy ===== *)
theory Combinators
  imports Futures
begin

text \<open>
  The combinators of the \<open>futures\<close> crate (0.1) from which the connectors build their futures:
  \<open>future::err\<close>, \<open>map\<close>, \<open>map_err\<close> and \<open>and_then\<close>, as poll functions over their own state and
  the outside world. A chain polls its first future; when that one completes it makes the second
  one and polls it at once, in the same call. A run of a chain is the run of its parts one
  after the other (\<open>and_then_run\<close>), and what the parts promise carries over to chains: the
  locale \<open>chained_future\<close> gives \<open>live_future\<close>, and a chain of runs that settle settles.
\<close>

section \<open>The combinators\<close>

type_synonym ('e, 's, 'w, 'x, 'a) world_poll =
  "'e \<Rightarrow> 's \<times> 'w \<Rightarrow> (('x, 'a) poll_result \<times> 's \<times> 'w) outcome"

text \<open>\<open>future::err\<close> hands its error out once.\<close>

definition err_poll :: "('e, 'x option, 'w, 'x, 'a) world_poll" where
  "err_poll e s =
     (case s of (x, w) \<Rightarrow>
        omap (\<lambda>x. (Err x, None, w)) (unwrap (PanicMsg ''cannot poll Result twice'') x))"

definition map_answer :: "('a \<Rightarrow> 'b) \<Rightarrow> ('x \<Rightarrow> 'y) \<Rightarrow> ('x, 'a) poll_result \<Rightarrow> ('y, 'b) poll_result" where
  "map_answer f g r = map_sum g (map_async f) r"

text \<open>
  \<open>map f\<close> and \<open>map_err g\<close>, up to their completion. A poll after that is a panic in the crate; here it
  is a poll of the completed future below, and no result is about such polls.
\<close>

definition map_poll ::
    "('a \<Rightarrow> 'b) \<Rightarrow> ('x \<Rightarrow> 'y) \<Rightarrow> ('e \<Rightarrow> 's \<Rightarrow> (('x, 'a) poll_result \<times> 's) outcome) \<Rightarrow>
     'e \<Rightarrow> 's \<Rightarrow> (('y, 'b) poll_result \<times> 's) outcome" where
  "map_poll f g poll e s = omap (\<lambda>(r, s'). (map_answer f g r, s')) (poll e s)"

text \<open>A chain holds the first future with the data of its closure, then the second future.\<close>

datatype ('f, 'd, 'g) chain = First 'f 'd | Second 'g | Done

definition and_then_poll ::
    "('e, 'f, 'w, 'x, 'a) world_poll \<Rightarrow> ('d \<Rightarrow> 'a \<Rightarrow> 'w \<Rightarrow> 'g \<times> 'w) \<Rightarrow>
     ('e, 'g, 'w, 'x, 'b) world_poll \<Rightarrow> ('e, ('f, 'd, 'g) chain, 'w, 'x, 'b) world_poll" where
  "and_then_poll pa k pb e s =
     (case s of
        (First a d, w) \<Rightarrow>
          obind (pa e (a, w)) (\<lambda>(r, a', w').
            case r of
              Err x \<Rightarrow> Ret (Err x, Done, w')
            | Ok NotReady \<Rightarrow> Ret (Ok NotReady, First a' d, w')
            | Ok (Ready v) \<Rightarrow>
                (case k d v w' of (b, w'') \<Rightarrow>
                   omap (\<lambda>(r, b', w3). (r, Second b', w3)) (pb e (b, w''))))
      | (Second b, w) \<Rightarrow> omap (\<lambda>(r, b', w'). (r, Second b', w')) (pb e (b, w))
      | (Done, w) \<Rightarrow> Panic (PanicMsg ''cannot poll a chained future twice''))"

section \<open>Runs of the combinators\<close>

lemma and_then_poll_simps [simp]:
  "and_then_poll pa k pb e (First a d, w) =
     obind (pa e (a, w)) (\<lambda>(r, a', w').
       case r of
         Err x \<Rightarrow> Ret (Err x, Done, w')
       | Ok NotReady \<Rightarrow> Ret (Ok NotReady, First a' d, w')
       | Ok (Ready v) \<Rightarrow>
           (case k d v w' of (b, w'') \<Rightarrow>
              omap (\<lambda>(r, b', w3). (r, Second b', w3)) (pb e (b, w''))))"
  "and_then_poll pa k pb e (Second b, w) = omap (\<lambda>(r, b', w'). (r, Second b', w')) (pb e (b, w))"
  "and_then_poll pa k pb e (Done, w) = Panic (PanicMsg ''cannot poll a chained future twice'')"
  by (simp_all add: and_then_poll_def)

lemma err_poll_simps [simp]:
  "err_poll e (Some x, w) = Ret (Err x, None, w)"
  "err_poll e (None, w) = Panic (PanicMsg ''cannot poll Result twice'')"
  by (simp_all add: err_poll_def)

lemma map_answer_pending [simp]: "map_answer f g r = Ok NotReady \<longleftrightarrow> r = Ok NotReady"
  by (cases r; cases "projr r") (auto simp: map_answer_def)

lemma map_answer_simps [simp]:
  "map_answer f g (Err x) = Err (g x)" "map_answer f g (Ok (Ready v)) = Ok (Ready (f v))"
  "map_answer f g (Ok NotReady) = Ok NotReady"
  by (simp_all add: map_answer_def)

lemma map_answer_Ready:
  "map_answer f g r = Ok (Ready y) \<longleftrightarrow> (\<exists>v. r = Ok (Ready v) \<and> y = f v)"
  by (cases r; cases "projr r") (auto simp: map_answer_def)

lemmas map_answer_Ready_iff = map_answer_Ready map_answer_Ready[THEN eq_commute[THEN trans]]

lemma omap_omap [simp]: "omap f (omap g m) = omap (\<lambda>x. f (g x)) m"
  by (cases m) simp_all

text \<open>Each fact is stated of \<open>run_until\<close>, which also says how many polls are left.\<close>

lemma map_until:
  "run_until (map_poll f g poll) es s =
     omap (\<lambda>((r, s'), es'). ((map_answer f g r, s'), es')) (run_until poll es s)"
proof (induction es arbitrary: s)
  case (Cons e es)
  then show ?case by (cases "poll e s") (auto simp: map_poll_def)
qed simp

lemma map_run:
  "run_polls (map_poll f g poll) es s = omap (\<lambda>(r, s'). (map_answer f g r, s')) (run_polls poll es s)"
  by (cases "run_until poll es s") (auto simp: run_polls_until map_until)

text \<open>A poll whose state is only wrapped in a constructor runs like the poll below it.\<close>

lemma wrapped_until:
  assumes "\<And>e s w. poll e (K s, w) = omap (\<lambda>(r, s', w'). (r, K s', w')) (poll' e (s, w))"
  shows "run_until poll es (K s, w) =
    omap (\<lambda>((r, s', w'), es'). ((r, K s', w'), es')) (run_until poll' es (s, w))"
proof (induction es arbitrary: s w)
  case (Cons e es)
  then show ?case by (cases "poll' e (s, w)") (auto simp: assms)
qed simp

lemma wrapped_run:
  assumes "\<And>e s w. poll e (K s, w) = omap (\<lambda>(r, s', w'). (r, K s', w')) (poll' e (s, w))"
  shows "run_polls poll es (K s, w) = omap (\<lambda>(r, s', w'). (r, K s', w')) (run_polls poll' es (s, w))"
  by (cases "run_until poll' es (s, w)") (auto simp: run_polls_until wrapped_until[of poll K poll', OF assms])

lemma second_until:
  "run_until (and_then_poll pa k pb) es (Second b, w) =
     omap (\<lambda>((r, b', w'), es'). ((r, Second b', w'), es')) (run_until pb es (b, w))"
  by (rule wrapped_until) simp

text \<open>A chain is sequential composition.\<close>

lemma and_then_until:
  "run_until (and_then_poll pa k pb) es (First a d, w) =
     obind (run_until pa es (a, w)) (\<lambda>((r, a', w'), es').
       case r of
         Err x \<Rightarrow> Ret ((Err x, Done, w'), es')
       | Ok NotReady \<Rightarrow> Ret ((Ok NotReady, First a' d, w'), es')
       | Ok (Ready v) \<Rightarrow>
           (case k d v w' of (b, w'') \<Rightarrow>
              omap (\<lambda>((r, b', w3), es''). ((r, Second b', w3), es'')) (run_until pb es' (b, w''))))"
proof (induction es arbitrary: a w)
  case (Cons e es)
  show ?case
  proof (cases "pa e (a, w)")
    case (Ret q)
    obtain r a' w' where q: "q = (r, a', w')" by (cases q)
    consider x where "r = Err x" | "r = Ok NotReady" | v where "r = Ok (Ready v)"
      by (metis sumE async.exhaust)
    then show ?thesis
    proof cases
      case (3 v)
      obtain b w'' where k: "k d v w' = (b, w'')" by fastforce
      with 3 Ret q show ?thesis
        by (cases "pb e (b, w'')") (auto simp: second_until)
    qed (use Ret q Cons in simp_all)
  qed simp
qed simp

lemma and_then_run:
  "run_polls (and_then_poll pa k pb) es (First a d, w) =
     obind (run_until pa es (a, w)) (\<lambda>((r, a', w'), es').
       case r of
         Err x \<Rightarrow> Ret (Err x, Done, w')
       | Ok NotReady \<Rightarrow> Ret (Ok NotReady, First a' d, w')
       | Ok (Ready v) \<Rightarrow>
           (case k d v w' of (b, w'') \<Rightarrow>
              omap (\<lambda>(r, b', w3). (r, Second b', w3)) (run_polls pb es' (b, w''))))"
  by (cases "run_until pa es (a, w)")
    (auto simp: run_polls_until and_then_until case_prod_unfold split: sum.split async.split)

text \<open>What a successful run of a chain was made of.\<close>

lemma and_then_run_Ready:
  assumes "run_polls (and_then_poll pa k pb) es (First a d, w) = Ret (Ok (Ready y), s', w3)"
  obtains es0 e es1 v a' w1 b w2 b' where "es = es0 @ e # es1"
    "run_polls pa (es0 @ [e]) (a, w) = Ret (Ok (Ready v), a', w1)"
    "k d v w1 = (b, w2)" "run_polls pb (e # es1) (b, w2) = Ret (Ok (Ready y), b', w3)"
proof -
  obtain r a' w1 es' where u: "run_until pa es (a, w) = Ret ((r, a', w1), es')"
    using assms unfolding and_then_run by (cases "run_until pa es (a, w)") auto
  with assms obtain v where v: "r = Ok (Ready v)"
    unfolding and_then_run by (auto split: sum.split_asm async.split_asm)
  obtain b w2 where k: "k d v w1 = (b, w2)" by fastforce
  obtain b' where b: "run_polls pb es' (b, w2) = Ret (Ok (Ready y), b', w3)"
    using assms u v k unfolding and_then_run by (auto simp: omap_eq_Ret_iff)
  obtain es0 e es1 where "es = es0 @ e # es1" "es' = e # es1"
    "run_polls pa (es0 @ [e]) (a, w) = Ret (r, a', w1)"
    using run_until_split[OF u] v by auto
  with v k b that show thesis by auto
qed

section \<open>The contracts carry over\<close>

text \<open>A predicate on the parts of a chain; \<open>d\<close> is its value on a chain that is done.\<close>

definition chain_pred ::
    "bool \<Rightarrow> ('f \<times> 'w \<Rightarrow> bool) \<Rightarrow> ('g \<times> 'w \<Rightarrow> bool) \<Rightarrow> ('f, 'd, 'g) chain \<times> 'w \<Rightarrow> bool" where
  "chain_pred d P Q s =
     (case s of (First a _, w) \<Rightarrow> P (a, w) | (Second b, w) \<Rightarrow> Q (b, w) | (Done, w) \<Rightarrow> d)"

lemma chain_pred_simps [simp]:
  "chain_pred c P Q (First a d, w) = P (a, w)" "chain_pred c P Q (Second b, w) = Q (b, w)"
  "chain_pred c P Q (Done, w) = c"
  by (simp_all add: chain_pred_def)

text \<open>The answer of a mapped future changes, its states do not.\<close>

lemma map_poll_Ret:
  "map_poll f g poll e s = Ret (q, s') \<longleftrightarrow> (\<exists>r. poll e s = Ret (r, s') \<and> q = map_answer f g r)"
  by (auto simp: map_poll_def omap_eq_Ret_iff)

lemma map_poll_pending [simp]:
  "map_poll f g poll e s = Ret (Ok NotReady, s') \<longleftrightarrow> poll e s = Ret (Ok NotReady, s')"
  by (auto simp: map_poll_Ret dest: sym)

lemma map_poll_panic [simp]: "is_panic (map_poll f g poll e s) = is_panic (poll e s)"
  by (simp add: map_poll_def)

locale mapped_future = live_future poll inv live
  for poll :: "'e \<Rightarrow> 's \<Rightarrow> (('x, 'a) poll_result \<times> 's) outcome" and inv live +
  fixes f :: "'a \<Rightarrow> 'b" and g :: "'x \<Rightarrow> 'y"

sublocale mapped_future \<subseteq> mapped: live_future "map_poll f g poll" inv live
  by unfold_locales (simp_all add: live_poll, auto simp: map_poll_Ret intro: inv_poll live_pending)

text \<open>
  Two futures and a closure that turns the answer of the first into a second one that can be
  polled.
\<close>

locale chained_future =
  first: live_future pa inva livea + second: live_future pb invb liveb
  for pa :: "('e, 'f, 'w, 'x, 'a) world_poll" and inva livea
    and pb :: "('e, 'g, 'w, 'x, 'b) world_poll" and invb liveb +
  fixes k :: "'d \<Rightarrow> 'a \<Rightarrow> 'w \<Rightarrow> 'g \<times> 'w"
  assumes handover: "inva (a, w) \<Longrightarrow> livea (a, w) \<Longrightarrow> pa e (a, w) = Ret (Ok (Ready v), a', w1) \<Longrightarrow>
      k d v w1 = (b, w2) \<Longrightarrow> invb (b, w2) \<and> liveb (b, w2)"
begin

text \<open>A live chain is in its first part, which stays, fails or hands over, or in its second.\<close>

lemma chain_cases:
  assumes "chain_pred True inva invb s" and "chain_pred False livea liveb s"
  obtains
    (first_pending) a d w a' w' where "s = (First a d, w)" "inva (a, w)" "livea (a, w)"
      "pa e (a, w) = Ret (Ok NotReady, a', w')" "inva (a', w')" "livea (a', w')"
      "and_then_poll pa k pb e s = Ret (Ok NotReady, First a' d, w')"
  | (first_failed) a d w x w' where "s = (First a d, w)"
      "and_then_poll pa k pb e s = Ret (Err x, Done, w')"
  | (hands_over) a d w v a' w1 b w2 r b' w3 where "s = (First a d, w)" "inva (a, w)" "livea (a, w)"
      "pa e (a, w) = Ret (Ok (Ready v), a', w1)" "k d v w1 = (b, w2)" "invb (b, w2)" "liveb (b, w2)"
      "pb e (b, w2) = Ret (r, b', w3)" "invb (b', w3)" "r = Ok NotReady \<longrightarrow> liveb (b', w3)"
      "and_then_poll pa k pb e s = Ret (r, Second b', w3)"
  | (second_polled) b w r b' w' where "s = (Second b, w)" "invb (b, w)" "liveb (b, w)"
      "pb e (b, w) = Ret (r, b', w')" "invb (b', w')" "r = Ok NotReady \<longrightarrow> liveb (b', w')"
      "and_then_poll pa k pb e s = Ret (r, Second b', w')"
proof -
  obtain ch w where s: "s = (ch, w)" by fastforce
  have second: "\<exists>r b' w'. pb e (b, w) = Ret (r, b', w') \<and> invb (b', w') \<and>
      (r = Ok NotReady \<longrightarrow> liveb (b', w'))" if "invb (b, w)" "liveb (b, w)" for b w
    using that second.live_cases[OF that, of e] by (metis surj_pair)
  show thesis
  proof (cases ch)
    case (First a d)
    with assms s have a: "inva (a, w)" "livea (a, w)" by simp_all
    then show ?thesis
    proof (cases rule: first.live_cases[of "(a, w)" e])
      case (pending s')
      with s First a first_pending[of a d w "fst s'" "snd s'"] show ?thesis by (cases s') simp
    next
      case (completed r s')
      obtain a' w1 where s': "s' = (a', w1)" by fastforce
      show ?thesis
      proof (cases r)
        case (Inl x)
        with completed s s' First first_failed[of a d w x w1] show ?thesis by simp
      next
        case (Inr y)
        with completed(2) obtain v where v: "y = Ready v" by (cases y) auto
        obtain b w2 where k: "k d v w1 = (b, w2)" by fastforce
        have b: "invb (b, w2)" "liveb (b, w2)"
          using handover[OF a _ k, of e a'] completed(1) Inr v s' by simp_all
        obtain q b' w3 where "pb e (b, w2) = Ret (q, b', w3)" "invb (b', w3)"
          "q = Ok NotReady \<longrightarrow> liveb (b', w3)" using second[OF b] by blast
        with hands_over[of a d w v a' w1 b w2 q b' w3] s First a completed(1) Inr v s' k b
        show ?thesis by simp
      qed
    qed
  next
    case (Second b)
    with assms s have b: "invb (b, w)" "liveb (b, w)" by simp_all
    obtain q b' w' where "pb e (b, w) = Ret (q, b', w')" "invb (b', w')"
      "q = Ok NotReady \<longrightarrow> liveb (b', w')" using second[OF b] by blast
    with second_polled[of b w q b' w'] s Second b show ?thesis by simp
  qed (use assms s in simp)
qed

end

sublocale chained_future \<subseteq> chain:
  live_future "and_then_poll pa k pb" "chain_pred True inva invb" "chain_pred False livea liveb"
proof
  fix s :: "('f, 'd, 'g) chain \<times> 'w" and e
  assume s: "chain_pred True inva invb s" "chain_pred False livea liveb s"
  show "\<not> is_panic (and_then_poll pa k pb e s)" by (rule chain_cases[OF s, of e]) auto
  show "chain_pred True inva invb s'" if "and_then_poll pa k pb e s = Ret (r, s')" for r s'
    by (rule chain_cases[OF s, of e]) (use that in auto)
  show "chain_pred False livea liveb s'" if "and_then_poll pa k pb e s = Ret (Ok NotReady, s')" for s'
    by (rule chain_cases[OF s, of e]) (use that in auto)
qed

section \<open>Runs that come to an end\<close>

text \<open>
  A run settles when it completes and more polls are left than the patience of the world it leaves
  behind; what is made from its answer can then be run with the polls that are left.
\<close>

definition settles ::
    "('e, 's, 'w, 'x, 'a) world_poll \<Rightarrow> ('w \<Rightarrow> nat) \<Rightarrow> 'e list \<Rightarrow> 's \<times> 'w \<Rightarrow> bool" where
  "settles poll patience es s \<longleftrightarrow>
     (\<exists>r s' w' es'. run_until poll es s = Ret ((r, s', w'), es') \<and> r \<noteq> Ok NotReady \<and>
        patience w' < length es')"

lemma settles_completes:
  assumes "settles poll patience es s"
  shows "\<exists>r s'. run_polls poll es s = Ret (r, s') \<and> r \<noteq> Ok NotReady"
  using assms by (auto simp: settles_def run_polls_until)

lemma settles_at_once:
  assumes "es \<noteq> []" and "\<And>e. \<exists>r s'. poll e (s, w) = Ret (r, s', w) \<and> r \<noteq> Ok NotReady"
    and "patience w < length es"
  shows "settles poll patience es (s, w)"
proof -
  obtain e es1 where es: "es = e # es1" using assms(1) by (cases es) auto
  moreover obtain r s' where "poll e (s, w) = Ret (r, s', w)" "r \<noteq> Ok NotReady" using assms(2) by blast
  ultimately show ?thesis using assms(3) by (simp add: settles_def)
qed

lemma settles_map:
  "settles poll patience es s \<Longrightarrow> settles (map_poll f g poll) patience es s"
  by (fastforce simp: settles_def map_until)

lemma settles_wrapped:
  assumes "\<And>e s w. poll e (K s, w) = omap (\<lambda>(r, s', w'). (r, K s', w')) (poll' e (s, w))"
    and "settles poll' patience es (s, w)"
  shows "settles poll patience es (K s, w)"
  using assms(2) by (fastforce simp: settles_def wrapped_until[of poll K poll', OF assms(1)])

lemma settles_and_then:
  assumes "settles pa patience es (a, w)"
    and "\<And>v a' w1 es' b w2. run_until pa es (a, w) = Ret ((Ok (Ready v), a', w1), es') \<Longrightarrow>
      patience w1 < length es' \<Longrightarrow> k d v w1 = (b, w2) \<Longrightarrow> settles pb patience es' (b, w2)"
  shows "settles (and_then_poll pa k pb) patience es (First a d, w)"
proof -
  obtain r a' w1 es' where run: "run_until pa es (a, w) = Ret ((r, a', w1), es')"
    and r: "r \<noteq> Ok NotReady" and left: "patience w1 < length es'"
    using assms(1) by (auto simp: settles_def)
  show ?thesis
  proof (cases r)
    case (Inl x)
    with run left show ?thesis by (simp add: settles_def and_then_until)
  next
    case (Inr y)
    with r obtain v where v: "r = Ok (Ready v)" by (cases y) auto
    obtain b w2 where k: "k d v w1 = (b, w2)" by fastforce
    from assms(2)[OF run[unfolded v] left k] run v k show ?thesis
      by (fastforce simp: settles_def and_then_until)
  qed
qed

end
