(* ===== verification/Connect_Trait.thy ===== *)
theory Connect_Trait
  imports Destination Combinators
begin

text \<open>
  The trait \<open>Connect\<close> of \<open>src/src/connect.rs\<close>, the interface between the client and its
  connectors and between a connector and the one below it. An implementation is a record of
  its \<open>connect\<close>, which may panic before it returns a future, and of the poll of that future;
  the associated types are type variables. What the layers promise each other are locales:
  \<^item> \<open>live_connector\<close>: a future that \<open>connect\<close> has made never panics before it completes;
  \<^item> \<open>settling_connector\<close>: \<open>connect\<close> returns, and enough polls of its future complete it;
  \<^item> \<open>serving_connector\<close>: only destinations with a host are served.
  Each connector of the crate that is built on another one passes these promises on, so that
  every stack of them keeps the promises of the connector at its bottom.
\<close>

section \<open>The trait\<close>

record ('k, 'u, 'f, 'e, 'w, 'x, 'a) connect_api =
  ca_connect :: "'k \<Rightarrow> 'u destination \<Rightarrow> 'f outcome"
  ca_poll :: "('e, 'f, 'w, 'x, 'a) world_poll"

text \<open>What a caller does with an implementation: \<open>connect(dst)\<close>, then poll until it completes.\<close>

definition connect_run ::
    "('k, 'u, 'f, 'e, 'w, 'x, 'a) connect_api \<Rightarrow> 'k \<Rightarrow> 'u destination \<Rightarrow> 'e list \<Rightarrow> 'w \<Rightarrow>
     (('x, 'a) poll_result \<times> 'f \<times> 'w) outcome" where
  "connect_run K self dst es w =
     obind (ca_connect K self dst) (\<lambda>f. run_polls (ca_poll K) es (f, w))"

definition connect_settles ::
    "('k, 'u, 'f, 'e, 'w, 'x, 'a) connect_api \<Rightarrow> ('w \<Rightarrow> nat) \<Rightarrow> 'k \<Rightarrow> 'u destination \<Rightarrow> 'e list \<Rightarrow> 'w \<Rightarrow> bool" where
  "connect_settles K patience self dst es w \<longleftrightarrow>
     (\<exists>f. ca_connect K self dst = Ret f \<and> settles (ca_poll K) patience es (f, w))"

text \<open>
  An implementation seen by a layer above it: \<open>wire\<close> is what the peer of a stream does, and
  \<open>env\<close> picks the part of a poll's environment that the lower layer sees.
\<close>

definition wired_api ::
    "('t \<Rightarrow> 's) \<Rightarrow> ('e2 \<Rightarrow> 'e) \<Rightarrow> ('k, 'u, 'f, 'e, 'w, 'x, 't \<times> 'c) connect_api \<Rightarrow>
     ('k, 'u, 'f, 'e2, 'w, 'x, 's \<times> 'c) connect_api" where
  "wired_api wire env K =
     \<lparr>ca_connect = ca_connect K,
      ca_poll = (\<lambda>e. map_poll (\<lambda>(t, c). (wire t, c)) id (ca_poll K) (env e))\<rparr>"

lemma wired_connect [simp]: "ca_connect (wired_api wire env K) = ca_connect K"
  by (simp add: wired_api_def)

section \<open>Runs\<close>

lemma connect_run_Ret:
  "connect_run K self dst es w = Ret y \<longleftrightarrow>
     (\<exists>f. ca_connect K self dst = Ret f \<and> run_polls (ca_poll K) es (f, w) = Ret y)"
  by (simp add: connect_run_def obind_eq_Ret_iff)

lemma run_until_map:
  "run_until poll (map env es) s =
     omap (\<lambda>(x, es'). (x, map env es')) (run_until (\<lambda>e. poll (env e)) es s)"
proof (induction es arbitrary: s)
  case (Cons e es)
  then show ?case by (cases "poll (env e) s") auto
qed simp

lemma run_polls_map: "run_polls (\<lambda>e. poll (env e)) es s = run_polls poll (map env es) s"
  by (cases "run_until (\<lambda>e. poll (env e)) es s") (auto simp: run_polls_until run_until_map)

lemma settles_map_env:
  "settles (\<lambda>e. poll (env e)) patience es s \<longleftrightarrow> settles poll patience (map env es) s"
  by (cases "run_until (\<lambda>e. poll (env e)) es s") (auto simp: settles_def run_until_map)

lemma wired_run:
  "connect_run (wired_api wire env K) self dst es w =
     omap (\<lambda>(r, s'). (map_answer (\<lambda>(t, c). (wire t, c)) id r, s')) (connect_run K self dst (map env es) w)"
  by (cases "ca_connect K self dst")
    (simp_all add: connect_run_def wired_api_def map_run
      run_polls_map[of "map_poll (\<lambda>(t, c). (wire t, c)) id (ca_poll K)" env])

lemma wired_run_Ready:
  assumes "connect_run (wired_api wire env K) self dst es w = Ret (Ok (Ready (s, c)), s')"
  obtains t where "s = wire t" "connect_run K self dst (map env es) w = Ret (Ok (Ready (t, c)), s')"
  using assms by (auto simp: wired_run omap_eq_Ret_iff map_answer_Ready_iff)

lemma connect_settles_completes:
  assumes "connect_settles K patience self dst es w"
  obtains r f' w' where "connect_run K self dst es w = Ret (r, f', w')" "r \<noteq> Ok NotReady"
proof -
  obtain f where "ca_connect K self dst = Ret f" "settles (ca_poll K) patience es (f, w)"
    using assms by (auto simp: connect_settles_def)
  moreover from settles_completes[OF this(2)] obtain r s' where
    "run_polls (ca_poll K) es (f, w) = Ret (r, s')" "r \<noteq> Ok NotReady" by blast
  ultimately show thesis using that[of r "fst s'" "snd s'"] by (simp add: connect_run_def)
qed

section \<open>The promises\<close>

text \<open>\<open>usable\<close> is what a connector needs of the world at the time of the call.\<close>

locale live_connector = live_future "ca_poll K" inv live
  for K :: "('k, 'u, 'f, 'e, 'w, 'x, 'a) connect_api" and inv live +
  fixes usable :: "'w \<Rightarrow> bool"
  assumes fresh: "usable w \<Longrightarrow> ca_connect K self dst = Ret f \<Longrightarrow> inv (f, w) \<and> live (f, w)"
begin

lemma run_panics_iff:
  assumes "usable w"
  shows "is_panic (connect_run K self dst es w) \<longleftrightarrow> is_panic (ca_connect K self dst)"
proof (cases "ca_connect K self dst")
  case (Ret f)
  with live_run[of "(f, w)" es] fresh[OF assms Ret] show ?thesis by (simp add: connect_run_def)
qed (simp add: connect_run_def)

end

locale wired_connector = live_connector K inv live usable
  for K :: "('k, 'u, 'f, 'e, 'w, 'x, 't \<times> 'c) connect_api" and inv live usable +
  fixes wire :: "'t \<Rightarrow> 's" and env :: "'e2 \<Rightarrow> 'e"

sublocale wired_connector \<subseteq> below: mapped_future "ca_poll K" inv live "\<lambda>(t, c). (wire t, c)" id
  by unfold_locales

sublocale wired_connector \<subseteq> wired: live_connector "wired_api wire env K" inv live usable
  by unfold_locales
    (simp_all add: wired_api_def fresh below.mapped.live_poll del: map_poll_panic map_poll_pending,
     auto intro: below.mapped.inv_poll below.mapped.live_pending simp del: map_poll_pending)

text \<open>
  Completion: \<open>usable\<close> may now also speak about the connector and the destination, as the
  promise of a proxy depends on the peers that it meets.
\<close>

locale settling_connector =
  fixes K :: "('k, 'u, 'f, 'e, 'w, 'x, 'a) connect_api" and patience :: "'w \<Rightarrow> nat"
    and usable :: "'k \<Rightarrow> 'u destination \<Rightarrow> 'w \<Rightarrow> bool"
  assumes settled: "usable self dst w \<Longrightarrow> patience w < length es \<Longrightarrow> connect_settles K patience self dst es w"

locale wired_settling = settling_connector K patience usable
  for K :: "('k, 'u, 'f, 'e, 'w, 'x, 't \<times> 'c) connect_api" and patience usable +
  fixes wire :: "'t \<Rightarrow> 's" and env :: "'e2 \<Rightarrow> 'e"

sublocale wired_settling \<subseteq> wired: settling_connector "wired_api wire env K" patience usable
proof
  fix self dst w and es :: "'e2 list"
  assume "usable self dst w" "patience w < length es"
  then have "connect_settles K patience self dst (map env es) w" by (intro settled) simp_all
  then show "connect_settles (wired_api wire env K) patience self dst es w"
    by (auto simp: connect_settles_def wired_api_def settles_map
        settles_map_env[of "map_poll (\<lambda>(t, c). (wire t, c)) id (ca_poll K)" env])
qed

text \<open>\<open>ok\<close> is what a layer assumes of the URI type.\<close>

locale serving_connector =
  fixes A :: "('u, 's, 'a, 'q) uri_api" and K :: "('k, 'u, 'f, 'e, 'w, 'x, 'b) connect_api" and ok :: bool
  assumes served: "ok \<Longrightarrow> connect_run K self dst es w = Ret (Ok (Ready x), s') \<Longrightarrow> uri_host A (dst_uri dst) \<noteq> None"

locale wired_serving = serving_connector A K ok
  for A :: "('u, 's, 'a, 'q) uri_api" and K :: "('k, 'u, 'f, 'e, 'w, 'x, 't \<times> 'c) connect_api" and ok +
  fixes wire :: "'t \<Rightarrow> 't2" and env :: "'e2 \<Rightarrow> 'e"

sublocale wired_serving \<subseteq> wired: serving_connector A "wired_api wire env K" ok
  by unfold_locales (auto simp: wired_run omap_eq_Ret_iff map_answer_Ready_iff dest: served)

end
