(* ===== verification/Http_Connector.thy ===== *)
theory Http_Connector
  imports Connecting_Tcp Ares Destination Connect_Trait
begin

text \<open>
  The TCP connector, the first half of \<open>src/src/http/mod.rs\<close>: the checks of
  \<open>HttpConnector::connect\<close> and the future \<open>HttpConnecting\<close> with its states. A resolver is
  the record \<open>resolver_api\<close>; \<open>ares_api\<close> is the one the crate uses by default.
\<close>

section \<open>Resolvers\<close>

text \<open>A resolver: the items of the address iterator are its answer. Both of its operations may panic.\<close>

record ('r, 'rf, 'w) resolver_api =
  resolve :: "'r \<Rightarrow> name \<Rightarrow> 'w \<Rightarrow> ('rf \<times> 'w) outcome"
  resolve_poll :: "'rf \<Rightarrow> 'w \<Rightarrow> (ip_addr list io_poll \<times> 'rf \<times> 'w) outcome"

text \<open>
  The default resolver: the world holds the shared cache and, for each tick of a clock, the
  time and the answers of c-ares at that moment. Every call moves the clock.
\<close>

record ares_world =
  aw_cache :: resolver_cache
  aw_clock :: nat
  aw_envs :: "nat \<Rightarrow> cares_env"

definition ares_env :: "ares_world \<Rightarrow> cares_env" where
  "ares_env w = aw_envs w (aw_clock w)"

definition ares_api ::
    "(rstr \<Rightarrow> query) \<Rightarrow> (unit, cares_future, 'n \<times> ares_world) resolver_api" where
  "ares_api query_a =
     \<lparr>resolve = (\<lambda>r n (net, w).
        Ret (cares_resolve query_a (ce_now (ares_env w)) (aw_cache w) n,
             net, w\<lparr>aw_clock := Suc (aw_clock w)\<rparr>)),
      resolve_poll = (\<lambda>f (net, w).
        omap (\<lambda>(r, s).
          (r, cs_future s, net, w\<lparr>aw_cache := cs_cache s, aw_clock := Suc (aw_clock w)\<rparr>))
          (cares_poll (ares_env w) \<lparr>cs_future = f, cs_cache = aw_cache w\<rparr>))\<rparr>"

section \<open>The connector\<close>

record 'r http_connector =
  hc_enforce_http :: bool
  hc_handle :: "nat option"
  hc_happy_eyeballs_timeout :: "nat option"
  hc_keep_alive_timeout :: "nat option"
  hc_local_address :: "ip_addr option"
  hc_nodelay :: bool
  hc_resolver :: 'r
  hc_reuse_address :: bool

definition new_with_resolver :: "'r \<Rightarrow> 'r http_connector" where
  "new_with_resolver resolver =
     \<lparr>hc_enforce_http = True, hc_handle = None, hc_happy_eyeballs_timeout = Some 300,
      hc_keep_alive_timeout = None, hc_local_address = None, hc_nodelay = False,
      hc_resolver = resolver, hc_reuse_address = False\<rparr>"

definition enforce_http :: "bool \<Rightarrow> 'r http_connector \<Rightarrow> 'r http_connector" where
  "enforce_http is_enforced self = self\<lparr>hc_enforce_http := is_enforced\<rparr>"

datatype InvalidUrl = MissingScheme | NotHttp | MissingAuthority

primrec invalid_url_description :: "InvalidUrl \<Rightarrow> string" where
  "invalid_url_description MissingScheme = ''invalid URL, missing scheme''"
| "invalid_url_description NotHttp = ''invalid URL, scheme must be http''"
| "invalid_url_description MissingAuthority = ''invalid URL, missing domain''"

record http_info =
  remote_addr :: socket_addr

text \<open>The \<open>Connected\<close> metadata of the \<open>hyper\<close> crate, with the operations called on it.\<close>

record 'c connected_api =
  connected_new :: 'c
  connected_extra :: "http_info \<Rightarrow> 'c \<Rightarrow> 'c"
  connected_proxy :: "bool \<Rightarrow> 'c \<Rightarrow> 'c"

section \<open>The connecting future\<close>

datatype ('r, 'rf) http_state =
    Lazy 'r rstr "ip_addr option"
  | Resolving 'rf "ip_addr option"
  | Connecting connecting_tcp
  | ErrorState "io_error option"

record ('r, 'rf) http_connecting =
  hg_state :: "('r, 'rf) http_state"
  hg_handle :: "nat option"
  hg_happy_eyeballs_timeout :: "nat option"
  hg_keep_alive_timeout :: "nat option"
  hg_nodelay :: bool
  hg_port :: u16
  hg_reuse_address :: bool

definition invalid_url :: "InvalidUrl \<Rightarrow> nat option \<Rightarrow> ('r, 'rf) http_connecting" where
  "invalid_url err handle =
     \<lparr>hg_state = ErrorState (Some (IoError InvalidInput (invalid_url_description err))),
      hg_handle = handle, hg_happy_eyeballs_timeout = None, hg_keep_alive_timeout = None,
      hg_nodelay = False, hg_port = 0, hg_reuse_address = False\<rparr>"

text \<open>\<open>scheme_part() == Some(&s)\<close>\<close>

definition scheme_is :: "('u, 's, 'a, 'q) uri_api \<Rightarrow> 'u \<Rightarrow> 's \<Rightarrow> bool" where
  "scheme_is A uri s = (case scheme_part A uri of None \<Rightarrow> False | Some t \<Rightarrow> scheme_eq A t s)"

definition http_connect ::
    "('u, 's, 'a, 'q) uri_api \<Rightarrow> 'r http_connector \<Rightarrow> 'u destination \<Rightarrow> ('r, 'rf) http_connecting" where
  "http_connect A self dst =
     (if hc_enforce_http self \<and> \<not> scheme_is A (dst_uri dst) (scheme_HTTP A) then
        invalid_url NotHttp (hc_handle self)
      else if \<not> hc_enforce_http self \<and> scheme_part A (dst_uri dst) = None then
        invalid_url MissingScheme (hc_handle self)
      else case uri_host A (dst_uri dst) of
        None \<Rightarrow> invalid_url MissingAuthority (hc_handle self)
      | Some host \<Rightarrow>
          (let port = (case port_u16 A (dst_uri dst) of
                 Some port \<Rightarrow> port
               | None \<Rightarrow> if scheme_is A (dst_uri dst) (scheme_HTTPS A) then 443 else 80) in
           \<lparr>hg_state = Lazy (hc_resolver self) host (hc_local_address self),
            hg_handle = hc_handle self,
            hg_happy_eyeballs_timeout = hc_happy_eyeballs_timeout self,
            hg_keep_alive_timeout = hc_keep_alive_timeout self,
            hg_nodelay = hc_nodelay self,
            hg_port = port,
            hg_reuse_address = hc_reuse_address self\<rparr>))"

text \<open>The end of the \<open>Connecting\<close> branch: the socket options, then the peer address.\<close>

definition finish_connect ::
    "'w net_api \<Rightarrow> 'c connected_api \<Rightarrow> nat option \<Rightarrow> bool \<Rightarrow> nat \<Rightarrow> 'w \<Rightarrow>
     (nat \<times> 'c) async io_result \<times> 'w" where
  "finish_connect N C keep_alive nodelay sock =
     io_bind (case keep_alive of Some dur \<Rightarrow> set_keepalive N sock (Some dur) | None \<Rightarrow> io_ret ()) (\<lambda>_.
     io_bind (set_nodelay N sock nodelay) (\<lambda>_.
     io_bind (peer_addr N sock) (\<lambda>addr.
     io_ret (Ready (sock, connected_extra C \<lparr>remote_addr = addr\<rparr> (connected_new C))))))"

primrec state_rank :: "('r, 'rf) http_state \<Rightarrow> nat" where
  "state_rank (Lazy r h la) = 2"
| "state_rank (Resolving f la) = 1"
| "state_rank (Connecting c) = 0"
| "state_rank (ErrorState e) = 0"

function http_poll ::
    "'w net_api \<Rightarrow> ('r, 'rf, 'w) resolver_api \<Rightarrow> 'c connected_api \<Rightarrow>
     (rstr \<Rightarrow> 32 word option) \<Rightarrow> (rstr \<Rightarrow> 128 word option) \<Rightarrow>
     ('r, 'rf) http_connecting \<Rightarrow> 'w \<Rightarrow>
     ((nat \<times> 'c) io_poll \<times> ('r, 'rf) http_connecting \<times> 'w) outcome" where
  "http_poll N R C pv4 pv6 self w =
     (case hg_state self of
        Lazy resolver host la \<Rightarrow>
          (case try_parse pv4 pv6 host (hg_port self) of
             Some addrs \<Rightarrow>
               (case connecting_tcp_new N la addrs (hg_happy_eyeballs_timeout self)
                       (hg_reuse_address self) w of
                  (c, w') \<Rightarrow> http_poll N R C pv4 pv6 (self\<lparr>hg_state := Connecting c\<rparr>) w')
           | None \<Rightarrow>
               obind (resolve R resolver (name_new host) w) (\<lambda>(fut, w').
                 http_poll N R C pv4 pv6 (self\<lparr>hg_state := Resolving fut la\<rparr>) w'))
      | Resolving future la \<Rightarrow>
          obind (resolve_poll R future w) (\<lambda>(r, future', w').
            let self' = self\<lparr>hg_state := Resolving future' la\<rparr> in
            case r of
              Err e \<Rightarrow> Ret (Err e, self', w')
            | Ok NotReady \<Rightarrow> Ret (Ok NotReady, self', w')
            | Ok (Ready addrs) \<Rightarrow>
                (case connecting_tcp_new N la
                        (ip_addrs_new (map (\<lambda>addr. socket_addr_new addr (hg_port self)) addrs))
                        (hg_happy_eyeballs_timeout self) (hg_reuse_address self) w' of
                   (c, w'') \<Rightarrow> http_poll N R C pv4 pv6 (self\<lparr>hg_state := Connecting c\<rparr>) w''))
      | Connecting c \<Rightarrow>
          omap (\<lambda>(r, c', w').
            let self' = self\<lparr>hg_state := Connecting c'\<rparr> in
            case r of
              Err e \<Rightarrow> (Err e, self', w')
            | Ok NotReady \<Rightarrow> (Ok NotReady, self', w')
            | Ok (Ready sock) \<Rightarrow>
                (case finish_connect N C (hg_keep_alive_timeout self) (hg_nodelay self) sock w' of
                   (r', w'') \<Rightarrow> (r', self', w'')))
            (connecting_tcp_poll N (hg_handle self) c w)
      | ErrorState e \<Rightarrow>
          omap (\<lambda>err. (Err err, self\<lparr>hg_state := ErrorState None\<rparr>, w))
            (unwrap (PanicMsg ''polled more than once'') e))"
  by pat_completeness auto
termination
  by (relation "measure (\<lambda>(N, R, C, pv4, pv6, self, w). state_rank (hg_state self))") auto

declare http_poll.simps [simp del]

section \<open>One step of the loop\<close>

lemma http_poll_lazy_ip:
  assumes "hg_state self = Lazy r host la" and "try_parse pv4 pv6 host (hg_port self) = Some addrs"
    and "connecting_tcp_new N la addrs (hg_happy_eyeballs_timeout self) (hg_reuse_address self) w = (c, w')"
  shows "http_poll N R C pv4 pv6 self w = http_poll N R C pv4 pv6 (self\<lparr>hg_state := Connecting c\<rparr>) w'"
  using assms by (subst http_poll.simps) simp

lemma http_poll_lazy_name:
  assumes "hg_state self = Lazy r host la" and "try_parse pv4 pv6 host (hg_port self) = None"
    and "resolve R r (name_new host) w = Ret (fut, w')"
  shows "http_poll N R C pv4 pv6 self w = http_poll N R C pv4 pv6 (self\<lparr>hg_state := Resolving fut la\<rparr>) w'"
  using assms by (subst http_poll.simps) simp

lemma http_poll_resolved:
  assumes "hg_state self = Resolving fut la"
    and "resolve_poll R fut w = Ret (Ok (Ready addrs), fut', w1)"
    and "connecting_tcp_new N la
      (ip_addrs_new (map (\<lambda>addr. socket_addr_new addr (hg_port self)) addrs))
      (hg_happy_eyeballs_timeout self) (hg_reuse_address self) w1 = (c, w')"
  shows "http_poll N R C pv4 pv6 self w = http_poll N R C pv4 pv6 (self\<lparr>hg_state := Connecting c\<rparr>) w'"
  using assms by (subst http_poll.simps) simp

lemma http_poll_unresolved:
  assumes "hg_state self = Resolving fut la"
  shows "resolve_poll R fut w = Ret (Err e, fut', w') \<Longrightarrow>
      http_poll N R C pv4 pv6 self w = Ret (Err e, self\<lparr>hg_state := Resolving fut' la\<rparr>, w')"
    and "resolve_poll R fut w = Ret (Ok NotReady, fut', w') \<Longrightarrow>
      http_poll N R C pv4 pv6 self w = Ret (Ok NotReady, self\<lparr>hg_state := Resolving fut' la\<rparr>, w')"
  using assms by (subst http_poll.simps, simp)+

lemma http_poll_connecting:
  assumes "hg_state self = Connecting c"
  shows "http_poll N R C pv4 pv6 self w =
    omap (\<lambda>(r, c', w').
      (case r of
         Err e \<Rightarrow> (Err e, self\<lparr>hg_state := Connecting c'\<rparr>, w')
       | Ok NotReady \<Rightarrow> (Ok NotReady, self\<lparr>hg_state := Connecting c'\<rparr>, w')
       | Ok (Ready sock) \<Rightarrow>
           (case finish_connect N C (hg_keep_alive_timeout self) (hg_nodelay self) sock w' of
              (r', w'') \<Rightarrow> (r', self\<lparr>hg_state := Connecting c'\<rparr>, w''))))
      (connecting_tcp_poll N (hg_handle self) c w)"
  using assms by (subst http_poll.simps) (simp add: Let_def)

lemma http_poll_error:
  "hg_state self = ErrorState (Some e) \<Longrightarrow>
   http_poll N R C pv4 pv6 self w = Ret (Err e, self\<lparr>hg_state := ErrorState None\<rparr>, w)"
  by (subst http_poll.simps) simp

lemma http_poll_error_again:
  "hg_state self = ErrorState None \<Longrightarrow>
   http_poll N R C pv4 pv6 self w = Panic (PanicMsg ''polled more than once'')"
  by (subst http_poll.simps) simp

text \<open>An empty list of addresses reaches the \<open>expect\<close> of the remote.\<close>

lemma remote_poll_no_address:
  "remote_poll N la h ru None (remote_new \<lparr>ia_iter = []\<rparr>) w = Panic (PanicMsg ''missing connect error'')"
  by (simp add: remote_new_def remote_poll_nothing)

lemma http_poll_no_address:
  assumes "hg_state self = Resolving fut la" and "resolve_poll R fut w = Ret (Ok (Ready []), fut', w1)"
  shows "http_poll N R C pv4 pv6 self w = Panic (PanicMsg ''missing connect error'')"
proof -
  obtain c w' where c: "connecting_tcp_new N la (ip_addrs_new (map (\<lambda>addr. socket_addr_new addr (hg_port self)) []))
      (hg_happy_eyeballs_timeout self) (hg_reuse_address self) w1 = (c, w')" by fastforce
  then have pref: "ct_preferred c = remote_new \<lparr>ia_iter = []\<rparr>" and fb: "ct_fallback c = None"
    by (auto simp: connecting_tcp_new_def ip_addrs_new_def split_by_preference_filter
        ip_addrs_is_empty_def split: option.splits)
  show ?thesis
    unfolding http_poll_resolved[OF assms c]
    by (simp add: http_poll_connecting connecting_tcp_poll_def pref fb remote_poll_no_address)
qed

section \<open>The future under a well-behaved resolver\<close>

text \<open>A future that can still be polled; \<open>rlive\<close> says so of the resolver's future.\<close>

definition http_live :: "('rf \<Rightarrow> bool) \<Rightarrow> ('r, 'rf) http_connecting \<Rightarrow> bool" where
  "http_live rlive self \<longleftrightarrow>
     (case hg_state self of
        Lazy r h la \<Rightarrow> True
      | Resolving f la \<Rightarrow> rlive f
      | Connecting c \<Rightarrow> ct_live c
      | ErrorState e \<Rightarrow> e \<noteq> None)"

lemma http_connect_live: "http_live rlive (http_connect A self dst)"
  by (auto simp: http_connect_def http_live_def invalid_url_def Let_def split: option.split)

text \<open>What a poll of a live future must give.\<close>

definition good_poll ::
    "('w \<Rightarrow> bool) \<Rightarrow> ('rf \<Rightarrow> bool) \<Rightarrow> ((nat \<times> 'c) io_poll \<times> ('r, 'rf) http_connecting \<times> 'w) outcome \<Rightarrow> bool" where
  "good_poll winv rlive res \<longleftrightarrow>
     (\<exists>r self' w'. res = Ret (r, self', w') \<and> winv w' \<and> (r = Ok NotReady \<longrightarrow> http_live rlive self'))"

text \<open>
  The future over its own state and the world; the environment of a poll holds what the code
  calls that is neither network nor resolver: the metadata type and the address parsers.
\<close>

type_synonym 'c http_env = "'c connected_api \<times> (rstr \<Rightarrow> 32 word option) \<times> (rstr \<Rightarrow> 128 word option)"

definition http_future ::
    "'w net_api \<Rightarrow> ('r, 'rf, 'w) resolver_api \<Rightarrow>
     ('c http_env, ('r, 'rf) http_connecting, 'w, io_error, nat \<times> 'c) world_poll" where
  "http_future N R e s = (case (e, s) of ((C, pv4, pv6), (self, w)) \<Rightarrow> http_poll N R C pv4 pv6 self w)"

text \<open>The connector as an implementation of \<open>Connect\<close>; its \<open>connect\<close> cannot panic.\<close>

definition http_api ::
    "('u, 's, 'a, 'q) uri_api \<Rightarrow> 'w net_api \<Rightarrow> ('r, 'rf, 'w) resolver_api \<Rightarrow>
     ('r http_connector, 'u, ('r, 'rf) http_connecting, 'c http_env, 'w, io_error, nat \<times> 'c) connect_api" where
  "http_api A N R =
     \<lparr>ca_connect = (\<lambda>self dst. Ret (http_connect A self dst)), ca_poll = http_future N R\<rparr>"

lemma http_api_simps [simp]:
  "ca_connect (http_api A N R) self dst = Ret (http_connect A self dst)"
  "ca_poll (http_api A N R) = http_future N R"
  by (simp_all add: http_api_def)

lemma http_api_run: "connect_run (http_api A N R) self dst es w = run_polls (http_future N R) es (http_connect A self dst, w)"
  by (simp add: connect_run_def)

text \<open>
  What the connecting future needs of its surroundings: the socket operations and the resolver
  keep an invariant of the world, neither \<open>resolve\<close> nor a live resolver future panics, and an
  answer names at least one address.
\<close>

locale connector_env =
  fixes N :: "'w net_api"
    and R :: "('r, 'rf, 'w) resolver_api"
    and winv :: "'w \<Rightarrow> bool"
    and rlive :: "'rf \<Rightarrow> bool"
  assumes net: "net_keeps N winv"
    and resolve_returns: "winv w \<Longrightarrow> \<not> is_panic (resolve R r n w)"
    and resolve_keeps: "winv w \<Longrightarrow> resolve R r n w = Ret (f, w') \<Longrightarrow> winv w' \<and> rlive f"
    and resolve_live: "winv w \<Longrightarrow> rlive f \<Longrightarrow> \<not> is_panic (resolve_poll R f w)"
    and resolve_poll_keeps: "winv w \<Longrightarrow> rlive f \<Longrightarrow> resolve_poll R f w = Ret (a, f', w') \<Longrightarrow> winv w'"
    and resolve_pending:
      "winv w \<Longrightarrow> rlive f \<Longrightarrow> resolve_poll R f w = Ret (Ok NotReady, f', w') \<Longrightarrow> rlive f'"
    and resolve_answer:
      "winv w \<Longrightarrow> rlive f \<Longrightarrow> resolve_poll R f w = Ret (Ok (Ready as), f', w') \<Longrightarrow> as \<noteq> []"
begin

lemma keeps_finish: "keeps winv (finish_connect N C ka nd sock)"
  unfolding finish_connect_def using net
  by (intro keeps_io_bind) (auto simp: net_keeps_def split: option.split)

lemma good_connecting:
  assumes "winv w" and "hg_state self = Connecting c" and "ct_live c"
  shows "good_poll winv rlive (http_poll N R C pv4 pv6 self w)"
proof -
  obtain r c' w' where p: "connecting_tcp_poll N (hg_handle self) c w = Ret (r, c', w')"
    using connecting_tcp_poll_live[OF assms(3), of N "hg_handle self" w] by (auto simp: not_is_panic_iff)
  have w': "winv w'" by (rule connecting_tcp_poll_keeps[OF net assms(3) p assms(1)])
  consider e where "r = Err e" | "r = Ok NotReady" | s where "r = Ok (Ready s)"
    by (metis sumE async.exhaust)
  then show ?thesis
  proof cases
    case 2
    with p have "ct_live c'" by (blast intro: connecting_tcp_pending_live[OF assms(3)])
    with 2 p w' show ?thesis
      by (simp add: http_poll_connecting[OF assms(2)] good_poll_def http_live_def)
  next
    case (3 s)
    obtain q w'' where q: "finish_connect N C (hg_keep_alive_timeout self) (hg_nodelay self) s w' = (q, w'')"
      by fastforce
    then have "winv w''" by (rule keepsD[OF keeps_finish _ w'])
    moreover have "q \<noteq> Ok NotReady"
      using q by (auto simp: finish_connect_def io_bind_def io_ret_def split: prod.splits sum.splits)
    ultimately show ?thesis
      using 3 p q by (simp add: http_poll_connecting[OF assms(2)] good_poll_def)
  qed (use p w' in \<open>simp add: http_poll_connecting[OF assms(2)] good_poll_def\<close>)
qed

lemma good_start:
  assumes "winv w" and "ia_iter addrs \<noteq> []"
    and "connecting_tcp_new N la addrs timeout ru w = (c, w')"
  shows "good_poll winv rlive (http_poll N R C pv4 pv6 (self\<lparr>hg_state := Connecting c\<rparr>) w')"
proof (rule good_connecting[of _ _ c])
  show "winv w'" by (rule keepsD[OF connecting_tcp_new_keeps[OF net] assms(3,1)])
  show "ct_live c" using connecting_tcp_new_live[OF assms(3)] assms(2) by simp
qed simp

lemma good_resolving:
  assumes "winv w" and "hg_state self = Resolving f la" and "rlive f"
  shows "good_poll winv rlive (http_poll N R C pv4 pv6 self w)"
proof -
  obtain r f' w' where p: "resolve_poll R f w = Ret (r, f', w')"
    using resolve_live[OF assms(1,3)] by (auto simp: not_is_panic_iff)
  have w': "winv w'" by (rule resolve_poll_keeps[OF assms(1,3) p])
  consider e where "r = Err e" | "r = Ok NotReady" | as where "r = Ok (Ready as)"
    by (metis sumE async.exhaust)
  then show ?thesis
  proof cases
    case (1 e)
    with p w' show ?thesis
      by (simp add: good_poll_def http_poll_unresolved[OF assms(2)])
  next
    case 2
    with p have "rlive f'" by (blast intro: resolve_pending[OF assms(1,3)])
    with 2 p w' show ?thesis
      by (simp add: good_poll_def http_live_def http_poll_unresolved[OF assms(2)])
  next
    case (3 as)
    let ?addrs = "ip_addrs_new (map (\<lambda>addr. socket_addr_new addr (hg_port self)) as)"
    obtain c w'' where c: "connecting_tcp_new N la ?addrs
        (hg_happy_eyeballs_timeout self) (hg_reuse_address self) w' = (c, w'')" by fastforce
    have "ia_iter ?addrs \<noteq> []"
      using resolve_answer[OF assms(1,3)] p 3 by (simp add: ip_addrs_new_def)
    from good_start[OF w' this c] show ?thesis
      unfolding http_poll_resolved[OF assms(2) p[unfolded 3] c] .
  qed
qed

lemma good_live:
  assumes "winv w" and "http_live rlive self"
  shows "good_poll winv rlive (http_poll N R C pv4 pv6 self w)"
proof (cases "hg_state self")
  case (Lazy r host la)
  show ?thesis
  proof (cases "try_parse pv4 pv6 host (hg_port self)")
    case None
    obtain f w' where f: "resolve R r (name_new host) w = Ret (f, w')"
      using resolve_returns[OF assms(1), of r "name_new host"] by (cases "resolve R r (name_new host) w") auto
    from resolve_keeps[OF assms(1) f] good_resolving[of w' "self\<lparr>hg_state := Resolving f la\<rparr>" f la]
    show ?thesis by (simp add: http_poll_lazy_name[OF Lazy None f])
  next
    case (Some addrs)
    obtain c w' where c: "connecting_tcp_new N la addrs (hg_happy_eyeballs_timeout self)
        (hg_reuse_address self) w = (c, w')" by fastforce
    have "ia_iter addrs \<noteq> []" using Some by (auto simp: try_parse_def split: option.splits)
    from good_start[OF assms(1) this c] show ?thesis by (simp add: http_poll_lazy_ip[OF Lazy Some c])
  qed
next
  case (ErrorState e)
  with assms show ?thesis
    by (cases e) (auto simp: http_live_def good_poll_def http_poll_error)
qed (use assms in \<open>auto simp: http_live_def intro: good_resolving good_connecting\<close>)

end

sublocale connector_env \<subseteq> connecting: live_future "http_future N R" "\<lambda>s. winv (snd s)" "\<lambda>s. http_live rlive (fst s)"
proof
  fix s :: "('r, 'rf) http_connecting \<times> 'w"
    and e :: "'c connected_api \<times> (rstr \<Rightarrow> 32 word option) \<times> (rstr \<Rightarrow> 128 word option)"
  obtain C pv4 pv6 self w where *: "e = (C, pv4, pv6)" "s = (self, w)" by (metis prod.exhaust)
  assume "winv (snd s)" and "http_live rlive (fst s)"
  with good_live[of w self C pv4 pv6] * obtain r self' w' where
    r: "http_future N R e s = Ret (r, self', w')" "winv w'" "r = Ok NotReady \<longrightarrow> http_live rlive self'"
    by (auto simp: http_future_def good_poll_def)
  then show "\<not> is_panic (http_future N R e s)" by simp
  show "winv (snd s')" if "http_future N R e s = Ret (q, s')" for q s' using that r by auto
  show "http_live rlive (fst s')" if "http_future N R e s = Ret (Ok NotReady, s')" for s' using that r by auto
qed

section \<open>The default resolver keeps the contract\<close>

text \<open>The socket operations do not touch the state of the resolver.\<close>

definition on_fst :: "('n \<Rightarrow> 'a \<times> 'n) \<Rightarrow> 'n \<times> 'x \<Rightarrow> 'a \<times> 'n \<times> 'x" where
  "on_fst m = (\<lambda>(n, x). case m n of (r, n') \<Rightarrow> (r, n', x))"

definition lift_net :: "'n net_api \<Rightarrow> ('n \<times> 'x) net_api" where
  "lift_net N =
     \<lparr>new_v4 = on_fst (new_v4 N), new_v6 = on_fst (new_v6 N),
      tcp_reuse_address = (\<lambda>b x. on_fst (tcp_reuse_address N b x)),
      tcp_bind = (\<lambda>b a. on_fst (tcp_bind N b a)),
      to_tcp_stream = (\<lambda>b. on_fst (to_tcp_stream N b)),
      connect_std = (\<lambda>s a h. on_fst (connect_std N s a h)),
      handle_default = handle_default N, is_windows = is_windows N,
      connect_poll = (\<lambda>f. on_fst (connect_poll N f)),
      delay_new = (\<lambda>t. on_fst (delay_new N t)),
      delay_poll = (\<lambda>d. on_fst (delay_poll N d)),
      set_keepalive = (\<lambda>s k. on_fst (set_keepalive N s k)),
      set_nodelay = (\<lambda>s b. on_fst (set_nodelay N s b)),
      peer_addr = (\<lambda>s. on_fst (peer_addr N s))\<rparr>"

lemma keeps_on_fst [simp]: "keeps (\<lambda>w. I (snd w)) (on_fst m)"
  by (auto simp: keeps_def on_fst_def split: prod.split)

lemma net_keeps_lift: "net_keeps (lift_net N) (\<lambda>w. I (snd w))"
  by (simp add: net_keeps_def lift_net_def)

text \<open>
  The hypothesis about c-ares under which connecting is safe: it reports a name without addresses
  as an error and never answers with an empty list, so that the cache holds no empty answer
  either, and no holder of the cache's mutex has panicked. An empty answer makes the future
  panic, as \<open>http_poll_no_address\<close> shows, so that this cannot be left out.
\<close>

definition ares_inv :: "ares_world \<Rightarrow> bool" where
  "ares_inv w \<longleftrightarrow>
     \<not> rc_poisoned (aw_cache w) \<and>
     (\<forall>n t. rc_map (aw_cache w) n \<noteq> Some ([], t)) \<and>
     (\<forall>k q. ce_answer (aw_envs w k) q \<noteq> Ok (Ready []))"

definition cares_future_live :: "cares_future \<Rightarrow> bool" where
  "cares_future_live f \<longleftrightarrow> f \<noteq> Finished \<and> f \<noteq> FromCache []"

lemma cares_resolve_live: "ares_inv w \<Longrightarrow> cares_future_live (cares_resolve qa now (aw_cache w) n)"
  by (auto simp: ares_inv_def cares_future_live_def cares_resolve_def cache_lookup_def
      split: option.splits if_splits)

lemma cares_poll_answer:
  assumes "ares_inv w" and "cares_future_live f"
    and "cares_poll (ares_env w) \<lparr>cs_future = f, cs_cache = aw_cache w\<rparr> = Ret (r, s)"
  shows "r \<noteq> Ok (Ready []) \<and> ares_inv (w\<lparr>aw_cache := cs_cache s, aw_clock := k\<rparr>) \<and>
    (r = Ok NotReady \<longrightarrow> cs_future s = f)"
  using assms
  by (auto simp: ares_inv_def ares_env_def cares_future_live_def cares_poll_def cache_add_def Let_def
      omap_eq_Ret_iff split: cares_future.splits sum.splits async.splits if_splits)

lemma cares_poll_no_panic:
  assumes "ares_inv w" and "cares_future_live f"
  shows "\<not> is_panic (cares_poll e \<lparr>cs_future = f, cs_cache = aw_cache w\<rparr>)"
  using assms
  by (simp add: cares_poll_panic_iff cares_inv_def cares_live_def ares_inv_def cares_future_live_def)

interpretation ares_connector:
  connector_env "lift_net N" "ares_api query_a" "\<lambda>w. ares_inv (snd w)" cares_future_live
  for N query_a
proof
  fix w :: "'a \<times> ares_world" and f a f' w' n r as
  assume inv: "ares_inv (snd w)"
  show "ares_inv (snd w') \<and> cares_future_live f"
    if "resolve (ares_api query_a) r n w = Ret (f, w')"
    using that inv cares_resolve_live[OF inv]
    by (auto simp: ares_api_def ares_inv_def split: prod.splits)
  show "\<not> is_panic (resolve (ares_api query_a) r n w)" by (cases w) (simp add: ares_api_def)
  assume live: "cares_future_live f"
  show "\<not> is_panic (resolve_poll (ares_api query_a) f w)"
    using cares_poll_no_panic[OF inv live] by (auto simp: ares_api_def split: prod.split)
  note answer = cares_poll_answer[OF inv live]
  show "ares_inv (snd w')" if "resolve_poll (ares_api query_a) f w = Ret (a, f', w')"
    using that answer by (auto simp: ares_api_def omap_eq_Ret_iff split: prod.splits)
  show "cares_future_live f'" if "resolve_poll (ares_api query_a) f w = Ret (Ok NotReady, f', w')"
    using that answer live by (auto simp: ares_api_def omap_eq_Ret_iff split: prod.splits)
  show "as \<noteq> []" if "resolve_poll (ares_api query_a) f w = Ret (Ok (Ready as), f', w')"
    using that answer by (auto simp: ares_api_def omap_eq_Ret_iff split: prod.splits)
qed (rule net_keeps_lift)

interpretation ares_http:
  live_connector "http_api A (lift_net N) (ares_api query_a)" "\<lambda>s. ares_inv (snd (snd s))"
    "\<lambda>s. http_live cares_future_live (fst s)" "\<lambda>w. ares_inv (snd w)"
  for A and N :: "'n net_api" and query_a
  by unfold_locales
    (auto simp: http_connect_live ares_connector.connecting.live_poll
      intro: ares_connector.connecting.inv_poll ares_connector.connecting.live_pending)

section \<open>Addresses given as text\<close>

lemma finish_connect_Ok:
  assumes "(case ka of None \<Rightarrow> (Ok (), w2) | Some t \<Rightarrow> set_keepalive N sock (Some t) w2) = (Ok (), w3)"
    and "set_nodelay N sock nd w3 = (Ok (), w4)" and "peer_addr N sock w4 = (Ok addr, w5)"
  shows "finish_connect N C ka nd sock w2 =
    (Ok (Ready (sock, connected_extra C \<lparr>remote_addr = addr\<rparr> (connected_new C))), w5)"
  using assms by (auto simp: finish_connect_def io_bind_def io_ret_def split: option.splits)

lemma connecting_tcp_new_single:
  "connecting_tcp_new N la \<lparr>ia_iter = [a]\<rparr> timeout ru w =
     (\<lparr>ct_local_addr = la, ct_preferred = remote_new \<lparr>ia_iter = [a]\<rparr>, ct_fallback = None,
       ct_reuse_address = ru\<rparr>, w)"
  by (simp add: connecting_tcp_new_def split_by_preference_filter ip_addrs_is_empty_def
      split: option.split)

lemma remote_poll_single:
  "tcp_connect N a la h ru w = (Ok f, w1) \<Longrightarrow> connect_poll N f w1 = (Ok x, w2) \<Longrightarrow>
   remote_poll N la h ru err (remote_new \<lparr>ia_iter = [a]\<rparr>) w =
     Ret (Ok x, \<lparr>r_addrs = \<lparr>ia_iter = []\<rparr>, r_current = Some f\<rparr>, w2)"
  by (simp add: remote_new_def remote_poll_start remote_poll_current_ok)

lemma http_connect_valid:
  assumes "scheme_is A (dst_uri dst) (scheme_HTTP A)" and "uri_host A (dst_uri dst) = Some host"
  shows "hg_state (http_connect A self dst) = Lazy (hc_resolver self) host (hc_local_address self)"
    and "port_u16 A (dst_uri dst) = Some p \<Longrightarrow> hg_port (http_connect A self dst) = p"
    and "hg_handle (http_connect A self dst) = hc_handle self"
    and "hg_happy_eyeballs_timeout (http_connect A self dst) = hc_happy_eyeballs_timeout self"
    and "hg_keep_alive_timeout (http_connect A self dst) = hc_keep_alive_timeout self"
    and "hg_nodelay (http_connect A self dst) = hc_nodelay self"
    and "hg_reuse_address (http_connect A self dst) = hc_reuse_address self"
  using assms by (auto simp: http_connect_def scheme_is_def Let_def split: option.splits)

lemma http_connect_invalid:
  assumes "hc_enforce_http self \<and> \<not> scheme_is A (dst_uri dst) (scheme_HTTP A) \<or>
    scheme_part A (dst_uri dst) = None \<or> uri_host A (dst_uri dst) = None"
  shows "\<exists>kind. hg_state (http_connect A self dst) =
      ErrorState (Some (IoError InvalidInput (invalid_url_description kind)))"
  using assms
  by (cases "scheme_part A (dst_uri dst)"; cases "uri_host A (dst_uri dst)")
    (auto simp: http_connect_def scheme_is_def invalid_url_def simp del: invalid_url_description.simps)

text \<open>A destination without a host does not get past the connector.\<close>

lemma http_run_host:
  fixes R :: "('r, 'rf, 'w) resolver_api"
  assumes "connect_run (http_api A N R) self dst es w = Ret (Ok (Ready x), s')"
  shows "uri_host A (dst_uri dst) \<noteq> None"
proof
  assume none: "uri_host A (dst_uri dst) = None"
  obtain kind where "hg_state (http_connect A self dst :: ('r, 'rf) http_connecting) =
      ErrorState (Some (IoError InvalidInput (invalid_url_description kind)))"
    using http_connect_invalid[of self A dst] none by blast
  with assms show False
    by (cases es) (auto simp: http_api_run http_future_def http_poll_error split: prod.splits)
qed

interpretation http_serving: serving_connector A "http_api A N R" True for A N R
  by unfold_locales (rule http_run_host)

section \<open>Properties\<close>

text \<open>
  (C22) With the default resolver the connecting future never panics before it completes, whatever
  the network, the timers and c-ares do, as long as c-ares reports a name without addresses
  as an error and not as an empty answer and the mutex of the cache is not poisoned: this holds for any sequence of polls and from any
  state a pending future can be in. A pending future can be polled again.
\<close>

theorem default_connector_never_panics:
  assumes "ares_inv aw" and "http_live cares_future_live self"
  shows "\<not> is_panic (run_polls (http_future (lift_net N) (ares_api query_a)) envs (self, net, aw)) \<and>
    (\<forall>s' net' aw'. run_polls (http_future (lift_net N) (ares_api query_a)) envs (self, net, aw) =
        Ret (Ok NotReady, s', net', aw') \<longrightarrow> ares_inv aw' \<and> http_live cares_future_live s')"
  using ares_connector.connecting.live_run[of "(self, net, aw)" N query_a envs]
    ares_connector.connecting.live_run_pending[of "(self, net, aw)" N query_a envs] assms
  by fastforce

definition sample_ares :: ares_world where
  "sample_ares = \<lparr>aw_cache = resolver_cache_default, aw_clock = 0,
     aw_envs = (\<lambda>k. \<lparr>ce_now = k, ce_answer = (\<lambda>q. Ok (Ready [1]))\<rparr>)\<rparr>"

definition sample_connected :: "http_info list connected_api" where
  "sample_connected = \<lparr>connected_new = [], connected_extra = Cons, connected_proxy = (\<lambda>b c. c)\<rparr>"

theorem default_connector_never_panics_witness:
  "\<not> is_panic (run_polls (http_future (lift_net sample_net) (ares_api (\<lambda>n. 0)))
     [(sample_connected, \<lambda>h. None, \<lambda>h. None)]
     (http_connect sample_api (new_with_resolver ()) (sample_dst (lit ''http'') (lit ''a'') None),
      [Ok NotReady], sample_ares))"
proof -
  have "ares_inv sample_ares" by (simp add: ares_inv_def sample_ares_def resolver_cache_default_def)
  moreover have "http_live cares_future_live
      (http_connect sample_api (new_with_resolver ()) (sample_dst (lit ''http'') (lit ''a'') None))"
    by (simp add: http_live_def http_connect_def sample_api_def sample_dst_def new_with_resolver_def
        scheme_is_def Let_def)
  ultimately show ?thesis by (rule default_connector_never_panics[THEN conjunct1])
qed

text \<open>
  (C29) A destination that the connector cannot serve is refused without touching the network:
  when the scheme is not \<open>http\<close> although it is enforced, when it is missing, or when there
  is no host, the first poll returns an \<open>InvalidInput\<close> error and the world is as before; a
  second poll panics.
\<close>

theorem invalid_destination_refused:
  fixes R :: "('r, 'rf, 'w) resolver_api" and self :: "'r http_connector"
  assumes "hc_enforce_http self \<and> \<not> scheme_is A (dst_uri dst) (scheme_HTTP A) \<or>
    scheme_part A (dst_uri dst) = None \<or> uri_host A (dst_uri dst) = None"
  shows "\<exists>kind fut. http_poll N R C pv4 pv6 (http_connect A self dst) w =
      Ret (Err (IoError InvalidInput (invalid_url_description kind)), fut, w) \<and>
    http_poll N R C pv4 pv6 fut w' = Panic (PanicMsg ''polled more than once'')"
proof -
  obtain kind where "hg_state (http_connect A self dst :: ('r, 'rf) http_connecting) =
      ErrorState (Some (IoError InvalidInput (invalid_url_description kind)))"
    using http_connect_invalid[OF assms] by blast
  from http_poll_error[OF this] show ?thesis
    by (intro exI[of _ kind] exI[of _ "(http_connect A self dst)\<lparr>hg_state := ErrorState None\<rparr>"])
      (simp add: http_poll_error_again)
qed

definition fixed_resolver :: "ip_addr list \<Rightarrow> (unit, unit, 'w) resolver_api" where
  "fixed_resolver as =
     \<lparr>resolve = (\<lambda>r n w. Ret ((), w)), resolve_poll = (\<lambda>f w. Ret (Ok (Ready as), (), w))\<rparr>"

theorem invalid_destination_refused_witness:
  "\<exists>kind fut. http_poll sample_net (fixed_resolver [IpV4 1]) sample_connected (\<lambda>h. None) (\<lambda>h. None)
      (http_connect sample_api (new_with_resolver ()) (sample_dst (lit ''ftp'') (lit ''a'') None)) [] =
      Ret (Err (IoError InvalidInput (invalid_url_description kind)), fut, []) \<and>
    http_poll sample_net (fixed_resolver [IpV4 1]) sample_connected (\<lambda>h. None) (\<lambda>h. None) fut [] =
      Panic (PanicMsg ''polled more than once'')"
  by (rule invalid_destination_refused)
    (simp add: new_with_resolver_def scheme_is_def sample_api_def sample_dst_def lit_def)

text \<open>
  (C28) A host given as an IPv4 address is connected to directly: one poll of the future opens a
  socket to that address and the port of the destination. On the connected socket it sets the
  keep-alive time, when the connector has one, then the no-delay flag of the connector, and
  reads the peer address; it returns the stream with that address as metadata, and the world
  is the one that these calls left behind. The resolver is not asked.
\<close>

theorem ip_literal_connects_directly:
  assumes "scheme_is A (dst_uri dst) (scheme_HTTP A)" and "uri_host A (dst_uri dst) = Some host"
    and "port_u16 A (dst_uri dst) = Some port" and "pv4 host = Some a"
    and "tcp_connect N (SocketV4 a port) (hc_local_address self) (hc_handle self) (hc_reuse_address self) w =
      (Ok f, w1)"
    and "connect_poll N f w1 = (Ok (Ready sock), w2)"
    and "(case hc_keep_alive_timeout self of None \<Rightarrow> (Ok (), w2) | Some t \<Rightarrow> set_keepalive N sock (Some t) w2) =
      (Ok (), w3)"
    and "set_nodelay N sock (hc_nodelay self) w3 = (Ok (), w4)"
    and "peer_addr N sock w4 = (Ok addr, w5)"
  shows "\<exists>fut. http_poll N R C pv4 pv6 (http_connect A self dst) w =
    Ret (Ok (Ready (sock, connected_extra C \<lparr>remote_addr = addr\<rparr> (connected_new C))), fut, w5)"
proof -
  let ?c = "\<lparr>ct_local_addr = hc_local_address self, ct_preferred = remote_new \<lparr>ia_iter = [SocketV4 a port]\<rparr>,
    ct_fallback = None, ct_reuse_address = hc_reuse_address self\<rparr>"
  note fut = http_connect_valid[OF assms(1,2), where self=self]
  have "try_parse pv4 pv6 host (hg_port (http_connect A self dst)) = Some \<lparr>ia_iter = [SocketV4 a port]\<rparr>"
    using assms(4) fut(2)[OF assms(3)] by (simp add: try_parse_def)
  from http_poll_lazy_ip[OF fut(1) this connecting_tcp_new_single]
  have "http_poll N R C pv4 pv6 (http_connect A self dst) w =
      http_poll N R C pv4 pv6 ((http_connect A self dst)\<lparr>hg_state := Connecting ?c\<rparr>) w"
    by (simp add: fut)
  then show ?thesis
    using remote_poll_single[OF assms(5,6)] finish_connect_Ok[OF assms(7-9), of C]
    by (simp add: http_poll_connecting connecting_tcp_poll_def fut)
qed

text \<open>A network that writes down the options of its sockets.\<close>

definition sample_logging_net :: "nat io_poll list net_api" where
  "sample_logging_net = sample_net\<lparr>
     set_keepalive := (\<lambda>s t w. (Ok (), w @ [Ok (Ready (case t of None \<Rightarrow> 0 | Some t \<Rightarrow> t))])),
     set_nodelay := (\<lambda>s b w. (Ok (), w @ [Ok (Ready (if b then 1 else 0))]))\<rparr>"

definition sample_tuned :: "unit http_connector" where
  "sample_tuned = (new_with_resolver ())\<lparr>hc_keep_alive_timeout := Some 60, hc_nodelay := True\<rparr>"

theorem ip_literal_connects_directly_witness:
  "\<exists>fut. http_poll sample_logging_net (fixed_resolver []) sample_connected (\<lambda>h. Some 16909060) (\<lambda>h. None)
      (http_connect sample_api sample_tuned (sample_dst (lit ''http'') (lit ''1.2.3.4'') (Some 80)))
      [Ok (Ready 5)] =
    Ret (Ok (Ready (5, [\<lparr>remote_addr = SocketV4 0 80\<rparr>])), fut, [Ok (Ready 60), Ok (Ready 1)])"
proof -
  have "\<exists>fut. http_poll sample_logging_net (fixed_resolver []) sample_connected (\<lambda>h. Some 16909060) (\<lambda>h. None)
      (http_connect sample_api sample_tuned (sample_dst (lit ''http'') (lit ''1.2.3.4'') (Some 80)))
      [Ok (Ready 5)] =
    Ret (Ok (Ready (5, connected_extra sample_connected \<lparr>remote_addr = SocketV4 0 80\<rparr>
      (connected_new sample_connected))), fut, [Ok (Ready 60), Ok (Ready 1)])"
    by (rule ip_literal_connects_directly[where f=4 and ?w1.0="[Ok (Ready 5)]" and ?w2.0="[]"
          and ?w3.0="[Ok (Ready 60)]" and ?w4.0="[Ok (Ready 60), Ok (Ready 1)]"])
      (simp_all add: sample_tuned_def new_with_resolver_def scheme_is_def sample_api_def sample_dst_def
        tcp_connect_def sample_logging_net_def sample_net_def io_bind_def io_ret_def)
  then show ?thesis by (simp add: sample_connected_def)
qed

text \<open>
  (C40) A resolver that answers with an empty list of addresses brings the client down: the
  next step of the future is the panic \<open>missing connect error\<close>, for every timeout setting.
\<close>

theorem empty_answer_panics:
  assumes "hg_state self = Resolving fut la" and "resolve_poll R fut w = Ret (Ok (Ready []), fut', w1)"
  shows "http_poll N R C pv4 pv6 self w = Panic (PanicMsg ''missing connect error'')"
  by (rule http_poll_no_address[OF assms])

theorem empty_answer_panics_witness:
  "http_poll sample_net (fixed_resolver []) sample_connected (\<lambda>h. None) (\<lambda>h. None)
      ((http_connect sample_api (new_with_resolver ()) (sample_dst (lit ''http'') (lit ''a'') None))
        \<lparr>hg_state := Resolving () None\<rparr>) [] =
    Panic (PanicMsg ''missing connect error'')"
  by (rule empty_answer_panics) (simp_all add: fixed_resolver_def)

end
