(* ===== verification/Http_States.thy ===== *)
theory Http_States
  imports Http_Connector
begin

text \<open>
  The future \<open>HttpConnecting\<close> of \<open>src/src/http/mod.rs\<close> as a state machine. The loop of its
  \<open>poll\<close> is a step relation on the future and the world, with the ways to leave the loop as a
  second relation: every poll that returns is a sequence of steps and an exit, so that facts
  about polls are proved by rule induction. On top of it: an abstract specification of the phases of a connection attempt, which every run refines,
  and progress when the network and the resolver do not stay silent.
\<close>

section \<open>The loop as a step relation\<close>

inductive loop_step ::
    "'w net_api \<Rightarrow> ('r, 'rf, 'w) resolver_api \<Rightarrow> (rstr \<Rightarrow> 32 word option) \<Rightarrow> (rstr \<Rightarrow> 128 word option) \<Rightarrow>
     ('r, 'rf) http_connecting \<times> 'w \<Rightarrow> ('r, 'rf) http_connecting \<times> 'w \<Rightarrow> bool"
  for N :: "'w net_api" and R :: "('r, 'rf, 'w) resolver_api"
    and pv4 :: "rstr \<Rightarrow> 32 word option" and pv6 :: "rstr \<Rightarrow> 128 word option" where
  literal:
    "hg_state self = Lazy r host la \<Longrightarrow> try_parse pv4 pv6 host (hg_port self) = Some addrs \<Longrightarrow>
     connecting_tcp_new N la addrs (hg_happy_eyeballs_timeout self) (hg_reuse_address self) w = (c, w') \<Longrightarrow>
     loop_step N R pv4 pv6 (self, w) (self\<lparr>hg_state := Connecting c\<rparr>, w')"
| lookup:
    "hg_state self = Lazy r host la \<Longrightarrow> try_parse pv4 pv6 host (hg_port self) = None \<Longrightarrow>
     resolve R r (name_new host) w = Ret (fut, w') \<Longrightarrow>
     loop_step N R pv4 pv6 (self, w) (self\<lparr>hg_state := Resolving fut la\<rparr>, w')"
| resolved:
    "hg_state self = Resolving fut la \<Longrightarrow> resolve_poll R fut w = Ret (Ok (Ready addrs), fut', w1) \<Longrightarrow>
     connecting_tcp_new N la (ip_addrs_new (map (\<lambda>addr. socket_addr_new addr (hg_port self)) addrs))
       (hg_happy_eyeballs_timeout self) (hg_reuse_address self) w1 = (c, w') \<Longrightarrow>
     loop_step N R pv4 pv6 (self, w) (self\<lparr>hg_state := Connecting c\<rparr>, w')"

inductive loop_exit ::
    "'w net_api \<Rightarrow> ('r, 'rf, 'w) resolver_api \<Rightarrow> 'c connected_api \<Rightarrow> ('r, 'rf) http_connecting \<times> 'w \<Rightarrow>
     (nat \<times> 'c) io_poll \<Rightarrow> ('r, 'rf) http_connecting \<times> 'w \<Rightarrow> bool"
  for N :: "'w net_api" and R :: "('r, 'rf, 'w) resolver_api" and C :: "'c connected_api" where
  lookup_failed:
    "hg_state self = Resolving fut la \<Longrightarrow> resolve_poll R fut w = Ret (Err e, fut', w') \<Longrightarrow>
     loop_exit N R C (self, w) (Err e) (self\<lparr>hg_state := Resolving fut' la\<rparr>, w')"
| lookup_pending:
    "hg_state self = Resolving fut la \<Longrightarrow> resolve_poll R fut w = Ret (Ok NotReady, fut', w') \<Longrightarrow>
     loop_exit N R C (self, w) (Ok NotReady) (self\<lparr>hg_state := Resolving fut' la\<rparr>, w')"
| attempt_failed:
    "hg_state self = Connecting c \<Longrightarrow> connecting_tcp_poll N (hg_handle self) c w = Ret (Err e, c', w') \<Longrightarrow>
     loop_exit N R C (self, w) (Err e) (self\<lparr>hg_state := Connecting c'\<rparr>, w')"
| attempt_pending:
    "hg_state self = Connecting c \<Longrightarrow> connecting_tcp_poll N (hg_handle self) c w = Ret (Ok NotReady, c', w') \<Longrightarrow>
     loop_exit N R C (self, w) (Ok NotReady) (self\<lparr>hg_state := Connecting c'\<rparr>, w')"
| connected:
    "hg_state self = Connecting c \<Longrightarrow>
     connecting_tcp_poll N (hg_handle self) c w = Ret (Ok (Ready sock), c', w1) \<Longrightarrow>
     finish_connect N C (hg_keep_alive_timeout self) (hg_nodelay self) sock w1 = (r, w') \<Longrightarrow>
     loop_exit N R C (self, w) r (self\<lparr>hg_state := Connecting c'\<rparr>, w')"
| rejected:
    "hg_state self = ErrorState (Some e) \<Longrightarrow>
     loop_exit N R C (self, w) (Err e) (self\<lparr>hg_state := ErrorState None\<rparr>, w)"

inductive_cases loop_stepE: "loop_step N R pv4 pv6 s t"
inductive_cases loop_exitE: "loop_exit N R C s r t"

lemma http_poll_step:
  "loop_step N R pv4 pv6 s t \<Longrightarrow>
   http_poll N R C pv4 pv6 (fst s) (snd s) = http_poll N R C pv4 pv6 (fst t) (snd t)"
  by (induction rule: loop_step.induct)
    (simp_all add: http_poll_lazy_ip http_poll_lazy_name http_poll_resolved)

lemma http_poll_exit:
  "loop_exit N R C s r t \<Longrightarrow> http_poll N R C pv4 pv6 (fst s) (snd s) = Ret (r, t)"
  by (induction rule: loop_exit.induct)
    (simp_all add: http_poll_unresolved http_poll_connecting http_poll_error)

text \<open>A state of the loop is left by a step, by an exit, or by a panic.\<close>

lemma lazy_steps:
  assumes "hg_state self = Lazy r host la"
  shows "(\<exists>t. loop_step N R pv4 pv6 (self, w) t \<and> state_rank (hg_state (fst t)) < state_rank (hg_state self)) \<or>
    (\<exists>p. http_poll N R C pv4 pv6 self w = Panic p)"
proof (cases "try_parse pv4 pv6 host (hg_port self)")
  case None
  show ?thesis
  proof (cases "resolve R r (name_new host) w")
    case (Ret q)
    then have "resolve R r (name_new host) w = Ret (fst q, snd q)" by simp
    from lookup[OF assms None this] assms show ?thesis by fastforce
  qed (use assms None in \<open>simp add: http_poll.simps\<close>)
next
  case (Some addrs)
  obtain c w' where "connecting_tcp_new N la addrs (hg_happy_eyeballs_timeout self)
    (hg_reuse_address self) w = (c, w')" by fastforce
  from literal[OF assms Some this] assms show ?thesis by fastforce
qed

lemma resolving_moves:
  assumes "hg_state self = Resolving f la" and "resolve_poll R f w = Ret (r, f', w')"
  shows "(\<exists>t. loop_step N R pv4 pv6 (self, w) t \<and> state_rank (hg_state (fst t)) < state_rank (hg_state self)) \<or>
    (\<exists>r t. loop_exit N R C (self, w) r t)"
proof -
  consider e where "r = Err e" | "r = Ok NotReady" | as where "r = Ok (Ready as)"
    by (metis sumE async.exhaust)
  then show ?thesis
  proof cases
    case (3 as)
    obtain c w'' where "connecting_tcp_new N la (ip_addrs_new (map (\<lambda>a. socket_addr_new a (hg_port self)) as))
      (hg_happy_eyeballs_timeout self) (hg_reuse_address self) w' = (c, w'')" by fastforce
    from resolved[OF assms(1) assms(2)[unfolded 3] this] assms(1) show ?thesis by fastforce
  qed (use assms in \<open>blast intro: lookup_failed lookup_pending\<close>)+
qed

lemma connecting_exits:
  assumes "hg_state self = Connecting c" and "connecting_tcp_poll N (hg_handle self) c w = Ret (r, c', w')"
  shows "\<exists>r t. loop_exit N R C (self, w) r t"
proof -
  consider e where "r = Err e" | "r = Ok NotReady" | s where "r = Ok (Ready s)"
    by (metis sumE async.exhaust)
  then show ?thesis
  proof cases
    case (3 s)
    obtain x w'' where "finish_connect N C (hg_keep_alive_timeout self) (hg_nodelay self) s w' = (x, w'')"
      by fastforce
    from connected[OF assms(1) assms(2)[unfolded 3] this] show ?thesis by blast
  qed (use assms in \<open>auto intro: attempt_failed attempt_pending\<close>)
qed

lemma loop_cases:
  obtains (steps) t where "loop_step N R pv4 pv6 (self, w) t"
      "state_rank (hg_state (fst t)) < state_rank (hg_state self)"
    | (exits) r t where "loop_exit N R C (self, w) r t"
    | (panics) p where "http_poll N R C pv4 pv6 self w = Panic p"
proof (cases "hg_state self")
  case (Lazy r host la)
  from lazy_steps[OF Lazy, of N R pv4 pv6 w C] show thesis
    by (elim disjE exE conjE) (erule (1) steps, erule panics)
next
  case (Resolving f la)
  show thesis
  proof (cases "resolve_poll R f w")
    case (Ret q)
    then have "resolve_poll R f w = Ret (fst q, fst (snd q), snd (snd q))" by simp
    from resolving_moves[OF Resolving this, of N pv4 pv6 C] show ?thesis
      by (elim disjE exE conjE) (erule (1) steps, erule exits)
  next
    case (Panic p)
    with Resolving panics show ?thesis by (simp add: http_poll.simps)
  qed
next
  case (Connecting c)
  show thesis
  proof (cases "connecting_tcp_poll N (hg_handle self) c w")
    case (Ret q)
    from connecting_exits[OF Connecting, of N w "fst q" "fst (snd q)" "snd (snd q)" R C] Ret show ?thesis
      by (simp, elim exE) (rule exits)
  next
    case (Panic p)
    with Connecting panics show ?thesis by (simp add: http_poll_connecting)
  qed
next
  case (ErrorState e)
  show thesis
  proof (cases e)
    case None
    with ErrorState panics show ?thesis by (simp add: http_poll_error_again)
  next
    case (Some x)
    with ErrorState exits[OF rejected] show ?thesis by simp
  qed
qed

lemma http_poll_has_steps:
  "http_poll N R C pv4 pv6 self w = Ret (r, t) \<Longrightarrow>
   \<exists>u. (loop_step N R pv4 pv6)\<^sup>*\<^sup>* (self, w) u \<and> loop_exit N R C u r t"
proof (induction "state_rank (hg_state self)" arbitrary: self w rule: less_induct)
  case less
  show ?case
  proof (cases rule: loop_cases[where N=N and R=R and ?pv4.0=pv4 and ?pv6.0=pv6 and self=self and w=w and C=C])
    case (steps v)
    have "http_poll N R C pv4 pv6 (fst v) (snd v) = Ret (r, t)"
      using http_poll_step[OF steps(1), of C] less.prems by simp
    from less.hyps[OF steps(2) this] steps(1) show ?thesis
      by (auto intro: converse_rtranclp_into_rtranclp)
  next
    case (exits q v)
    with http_poll_exit[OF exits, of pv4 pv6] less.prems show ?thesis by auto
  qed (use less.prems in simp)
qed

section \<open>The phases of a connection attempt\<close>

text \<open>The specification: a name is looked up before sockets are opened, and nothing is done twice.\<close>

datatype phase = NotStarted | Looking | Opening | Failed

inductive phase_step :: "phase \<Rightarrow> phase \<Rightarrow> bool" where
  "phase_step NotStarted Looking"
| "phase_step NotStarted Opening"
| "phase_step Looking Opening"

code_pred phase_step .

inductive_simps phase_step_simps: "phase_step p q"

primrec phase_of :: "('r, 'rf) http_state \<Rightarrow> phase" where
  "phase_of (Lazy r h la) = NotStarted"
| "phase_of (Resolving f la) = Looking"
| "phase_of (Connecting c) = Opening"
| "phase_of (ErrorState e) = Failed"

abbreviation phase :: "('r, 'rf) http_connecting \<Rightarrow> phase" where
  "phase self \<equiv> phase_of (hg_state self)"

lemma phases_forward:
  "phase_step\<^sup>*\<^sup>* p q \<Longrightarrow> (p = Opening \<longrightarrow> q = Opening) \<and> (p = Failed \<longrightarrow> q = Failed) \<and> (p = Looking \<longrightarrow> q \<noteq> NotStarted)"
  by (induction rule: rtranclp_induct) (auto simp: phase_step_simps)

text \<open>What a step and an exit do to the future: only its state changes, along the phases.\<close>

lemma loop_step_phase:
  "loop_step N R pv4 pv6 s t \<Longrightarrow>
   phase_step (phase (fst s)) (phase (fst t)) \<and> fst t = fst s\<lparr>hg_state := hg_state (fst t)\<rparr>"
  by (induction rule: loop_step.induct) (auto simp: phase_step_simps)

lemma loop_exit_phase:
  "loop_exit N R C s r t \<Longrightarrow>
   phase (fst t) = phase (fst s) \<and> phase (fst t) \<noteq> NotStarted \<and>
   fst t = fst s\<lparr>hg_state := hg_state (fst t)\<rparr> \<and> (\<forall>x. r = Ok (Ready x) \<longrightarrow> phase (fst t) = Opening)"
  by (induction rule: loop_exit.induct) auto

lemma loop_steps_phase:
  "(loop_step N R pv4 pv6)\<^sup>*\<^sup>* s t \<Longrightarrow>
   phase_step\<^sup>*\<^sup>* (phase (fst s)) (phase (fst t)) \<and> fst t = fst s\<lparr>hg_state := hg_state (fst t)\<rparr>"
proof (induction rule: rtranclp_induct)
  case (step t u)
  from loop_step_phase[OF step.hyps(2)] step.IH show ?case
    by (metis http_connecting.surjective http_connecting.update_convs(1) rtranclp.rtrancl_into_rtrancl)
qed simp

lemma http_poll_phase:
  assumes "http_poll N R C pv4 pv6 self w = Ret (r, self', w')"
  shows "phase_step\<^sup>*\<^sup>* (phase self) (phase self') \<and> phase self' \<noteq> NotStarted \<and>
    self' = self\<lparr>hg_state := hg_state self'\<rparr> \<and> (\<forall>x. r = Ok (Ready x) \<longrightarrow> phase self' = Opening)"
proof -
  obtain u where "(loop_step N R pv4 pv6)\<^sup>*\<^sup>* (self, w) u" "loop_exit N R C u r (self', w')"
    using http_poll_has_steps[OF assms] by blast
  from loop_steps_phase[OF this(1)] loop_exit_phase[OF this(2)] show ?thesis
    by (metis fst_conv http_connecting.surjective http_connecting.update_convs(1))
qed

section \<open>The resolver is asked once\<close>

text \<open>Outside its first state the future does not use \<open>resolve\<close>.\<close>

lemma http_poll_started:
  "phase self \<noteq> NotStarted \<Longrightarrow>
   http_poll N (R\<lparr>resolve := f\<rparr>) C pv4 pv6 self w = http_poll N R C pv4 pv6 self w"
proof (cases "hg_state self")
  case (Resolving g la)
  have "http_poll N (R\<lparr>resolve := f\<rparr>) C pv4 pv6 (self\<lparr>hg_state := Connecting c\<rparr>) v =
      http_poll N R C pv4 pv6 (self\<lparr>hg_state := Connecting c\<rparr>) v" for c v
    by (simp add: http_poll_connecting)
  then show ?thesis
    by (cases "resolve_poll R g w")
      (auto simp: http_poll.simps[of N _ C pv4 pv6 self] Resolving Let_def split: sum.split async.split prod.split)
qed (simp_all add: http_poll.simps[of N _ C pv4 pv6 self])

lemma http_future_simp [simp]:
  "http_future N R (C, pv4, pv6) (self, w) = http_poll N R C pv4 pv6 self w"
  by (simp add: http_future_def)

lemma http_run_started:
  "phase self \<noteq> NotStarted \<Longrightarrow>
   run_polls (http_future N (R\<lparr>resolve := f\<rparr>)) es (self, w) = run_polls (http_future N R) es (self, w)"
proof (induction es arbitrary: self w)
  case (Cons e es)
  obtain C pv4 pv6 where e: "e = (C, pv4, pv6)" by (metis prod.exhaust)
  show ?case
  proof (cases "http_poll N R C pv4 pv6 self w")
    case (Ret q)
    obtain r self' w' where q: "q = (r, self', w')" by (cases q)
    with Ret http_poll_phase[of N R C pv4 pv6 self w r self' w'] Cons e show ?thesis
      by (simp add: http_poll_started)
  qed (use e Cons.prems in \<open>simp add: http_poll_started\<close>)
qed simp

section \<open>Progress\<close>

text \<open>
  A connector environment that does not stay silent: \<open>patience\<close> bounds the number of pending
  polls that the network and the resolver will still give, as in \<open>net_patient\<close>.
\<close>

locale patient_connector = connector_env N R winv rlive
  for N :: "'w net_api" and R :: "('r, 'rf, 'w) resolver_api" and winv rlive +
  fixes patience :: "'w \<Rightarrow> nat"
  assumes net_patience: "winv w \<Longrightarrow> net_patient N patience"
    and resolve_patience: "winv w \<Longrightarrow> resolve R r n w = Ret (f, w') \<Longrightarrow> patience w' \<le> patience w"
    and resolve_poll_patience:
      "winv w \<Longrightarrow> rlive f \<Longrightarrow> resolve_poll R f w = Ret (a, f', w') \<Longrightarrow>
       patience w' \<le> patience w \<and> (a = Ok NotReady \<longrightarrow> patience w' < patience w)"
begin

lemma new_patience:
  assumes "winv w" and "connecting_tcp_new N la addrs timeout ru w = (c, w')"
  shows "patience w' \<le> patience w"
  by (rule keepsD[OF connecting_tcp_new_keeps[OF net_patient_keeps[OF net_patience[OF assms(1)]]] assms(2)
        order.refl])

lemma step_patience:
  assumes "loop_step N R pv4 pv6 s t" and "winv (snd s)" and "http_live rlive (fst s)"
  shows "winv (snd t) \<and> http_live rlive (fst t) \<and> patience (snd t) \<le> patience (snd s)"
  using assms
proof (induction rule: loop_step.induct)
  case (literal self r host la addrs w c w')
  then have "ia_iter addrs \<noteq> []" by (auto simp: try_parse_def split: option.splits)
  with literal keepsD[OF connecting_tcp_new_keeps[OF net] literal(3)] new_patience[OF _ literal(3)]
    connecting_tcp_new_live[OF literal(3)] show ?case by (auto simp: http_live_def)
next
  case (lookup self r host la w fut w')
  with resolve_keeps[of w r "name_new host" fut w'] resolve_patience[of w r "name_new host" fut w']
  show ?case by (simp add: http_live_def)
next
  case (resolved self fut la w addrs fut' w1 c w')
  then have live: "winv w" "rlive fut" by (simp_all add: http_live_def)
  have "winv w1" "patience w1 \<le> patience w" "addrs \<noteq> []"
    using resolve_poll_keeps[OF live resolved(2)] resolve_poll_patience[OF live resolved(2)]
      resolve_answer[OF live resolved(2)] by simp_all
  with resolved keepsD[OF connecting_tcp_new_keeps[OF net] resolved(3)] new_patience[OF _ resolved(3)]
    connecting_tcp_new_live[OF resolved(3)] show ?case
    by (auto simp: http_live_def ip_addrs_new_def)
qed

lemma steps_patience:
  assumes "(loop_step N R pv4 pv6)\<^sup>*\<^sup>* s t" and "winv (snd s)" and "http_live rlive (fst s)"
  shows "winv (snd t) \<and> http_live rlive (fst t) \<and> patience (snd t) \<le> patience (snd s)"
  using assms(1) by (induction rule: rtranclp_induct) (use assms(2,3) step_patience in \<open>force+\<close>)

lemma exit_patience:
  "loop_exit N R C s r t \<Longrightarrow> winv (snd s) \<Longrightarrow> http_live rlive (fst s) \<Longrightarrow> r = Ok NotReady \<Longrightarrow>
   patience (snd t) < patience (snd s)"
proof (induction rule: loop_exit.induct)
  case (connected self c w sock c' w1 r w')
  then show ?case by (auto simp: finish_connect_def io_bind_def io_ret_def split: prod.splits sum.splits)
qed (use resolve_poll_patience connecting_tcp_poll_calm(2)[OF net_patience] in \<open>auto simp: http_live_def\<close>)

lemma exit_calm:
  "loop_exit N R C s r t \<Longrightarrow> winv (snd s) \<Longrightarrow> http_live rlive (fst s) \<Longrightarrow> patience (snd t) \<le> patience (snd s)"
proof (induction rule: loop_exit.induct)
  case (connected self c w sock c' w1 r w')
  then have live: "ct_live c" and inv: "winv w" by (simp_all add: http_live_def)
  have "winv w1" by (rule connecting_tcp_poll_keeps[OF net live connected(2) inv])
  have "keeps (\<lambda>v. patience v \<le> patience w1) (finish_connect N C (hg_keep_alive_timeout self) (hg_nodelay self) sock)"
    unfolding finish_connect_def using net_patient_keeps[OF net_patience[OF inv], of "patience w1"]
    by (intro keeps_io_bind) (auto simp: net_keeps_def split: option.split)
  from keepsD[OF this connected(3)] connecting_tcp_poll_calm(1)[OF net_patience[OF inv] live connected(2)]
  show ?case by simp
qed (use resolve_poll_patience connecting_tcp_poll_calm(1)[OF net_patience] in \<open>auto simp: http_live_def\<close>)

lemma poll_calm:
  assumes "winv w" and "http_live rlive self" and "http_poll N R C pv4 pv6 self w = Ret (r, self', w')"
  shows "patience w' \<le> patience w"
proof -
  obtain u where "(loop_step N R pv4 pv6)\<^sup>*\<^sup>* (self, w) u" "loop_exit N R C u r (self', w')"
    using http_poll_has_steps[OF assms(3)] by blast
  with steps_patience[OF this(1)] exit_calm[OF this(2)] assms(1,2) show ?thesis by fastforce
qed

end

sublocale patient_connector \<subseteq> connecting:
  patient_future "http_future N R" "\<lambda>s. winv (snd s)" "\<lambda>s. http_live rlive (fst s)" "\<lambda>s. patience (snd s)"
proof
  fix s s' :: "('r, 'rf) http_connecting \<times> 'w"
    and e :: "'c http_env"
  obtain C pv4 pv6 self w where *: "e = (C, pv4, pv6)" "s = (self, w)" by (metis prod.exhaust)
  assume s: "winv (snd s)" "http_live rlive (fst s)" and p: "http_future N R e s = Ret (Ok NotReady, s')"
  then obtain u where "(loop_step N R pv4 pv6)\<^sup>*\<^sup>* s u" "loop_exit N R C u (Ok NotReady) s'"
    using http_poll_has_steps[of N R C pv4 pv6 self w "Ok NotReady" s'] * by auto
  with steps_patience[OF this(1) s] exit_patience[OF this(2)] show "patience (snd s') < patience (snd s)"
    by fastforce
next
  fix s s' :: "('r, 'rf) http_connecting \<times> 'w" and e :: "'c http_env" and r
  assume "winv (snd s)" "http_live rlive (fst s)" "http_future N R e s = Ret (r, s')"
  then show "patience (snd s') \<le> patience (snd s)"
    using poll_calm[of "snd s" "fst s" "fst e" "fst (snd e)" "snd (snd e)" r "fst s'" "snd s'"]
    by (cases s; cases e) simp
qed

context patient_connector
begin

lemma http_settles:
  assumes "winv w" and "patience w < length es"
  shows "connect_settles (http_api A N R) patience self dst es w"
proof -
  obtain r s' es' where "run_until (http_future N R) es (http_connect A self dst, w) = Ret ((r, s'), es')"
    "r \<noteq> Ok NotReady" "patience (snd s') < length es'"
    using connecting.run_until_settles[of "(http_connect A self dst, w)" es] assms
    by (auto simp: http_connect_live)
  then show ?thesis by (cases s') (auto simp: connect_settles_def settles_def)
qed

end


text \<open>c-ares answers every query from tick \<open>T\<close> on.\<close>

definition answers_from :: "nat \<Rightarrow> ares_world \<Rightarrow> bool" where
  "answers_from T w \<longleftrightarrow> (\<forall>k\<ge>T. \<forall>q. ce_answer (aw_envs w k) q \<noteq> Ok NotReady)"

definition ares_patience :: "('n \<Rightarrow> nat) \<Rightarrow> nat \<Rightarrow> 'n \<times> ares_world \<Rightarrow> nat" where
  "ares_patience p T w = p (fst w) + (T - aw_clock (snd w))"

text \<open>A network stays patient when the world of a resolver is put next to its own.\<close>

lemma keeps_patience_on_fst:
  assumes "\<And>n. keeps (\<lambda>w. p w \<le> n) m"
  shows "keeps (\<lambda>w. p (fst w) + q (snd w) \<le> (n :: nat)) (on_fst m)"
  unfolding keeps_def
proof (intro allI impI)
  fix w assume "p (fst w) + q (snd w) \<le> n"
  moreover have "p (snd (m (fst w))) \<le> p (fst w)" using assms[of "p (fst w)"] by (simp add: keeps_def)
  ultimately show "p (fst (snd (on_fst m w))) + q (snd (snd (on_fst m w))) \<le> n"
    by (auto simp: on_fst_def split: prod.splits)
qed

lemma net_patient_lift:
  assumes "net_patient N p"
  shows "net_patient (lift_net N) (\<lambda>w. p (fst w) + q (snd w))"
proof -
  have "net_keeps (lift_net N) (\<lambda>w. p (fst w) + q (snd w) \<le> n)" for n
    using net_patient_keeps[OF assms]
    by (simp add: net_keeps_def lift_net_def keeps_patience_on_fst)
  moreover have "p (fst w') + q (snd w') < p (fst w) + q (snd w)"
    if "connect_poll (lift_net N) f w = (Ok NotReady, w')" for f w w'
    using that net_patient_attempt[OF assms] by (auto simp: lift_net_def on_fst_def split: prod.splits)
  ultimately show ?thesis by (simp add: net_patient_def)
qed

lemma ares_poll_patience:
  assumes "answers_from T aw" and "resolve_poll (ares_api query_a) f (n, aw) = Ret (a, f', w')"
  shows "ares_patience p T w' \<le> ares_patience p T (n, aw) \<and>
    (a = Ok NotReady \<longrightarrow> ares_patience p T w' < ares_patience p T (n, aw))"
proof -
  have "aw_clock aw < T" if "ce_answer (aw_envs aw (aw_clock aw)) q = Ok NotReady" for q
    using assms(1) that by (metis answers_from_def not_le)
  with assms(2) show ?thesis
    by (auto simp: ares_patience_def ares_api_def ares_env_def cares_poll_def Let_def
        omap_eq_Ret_iff diff_less_mono2 split: cares_future.splits sum.splits async.splits if_splits)
qed

lemma answers_from_keeps:
  "answers_from T (snd w) \<Longrightarrow> resolve (ares_api query_a) r n w = Ret (f, w') \<Longrightarrow> answers_from T (snd w')"
  "answers_from T (snd w) \<Longrightarrow> resolve_poll (ares_api query_a) f w = Ret (a, f', w') \<Longrightarrow> answers_from T (snd w')"
  by (auto simp: answers_from_def ares_api_def omap_eq_Ret_iff split: prod.splits)

interpretation ares_patient:
  patient_connector "lift_net N" "ares_api query_a"
    "\<lambda>w. ares_inv (snd w) \<and> answers_from T (snd w) \<and> net_patient N p" cares_future_live "ares_patience p T"
  for N :: "'n net_api" and query_a and p and T
proof
  fix w w' :: "'n \<times> ares_world" and f f' and r :: unit and a and n and as :: "ip_addr list"
  show "net_keeps (lift_net N) (\<lambda>w. ares_inv (snd w) \<and> answers_from T (snd w) \<and> net_patient N p)"
    by (rule net_keeps_lift)
  assume inv: "ares_inv (snd w) \<and> answers_from T (snd w) \<and> net_patient N p"
  then show "net_patient (lift_net N) (ares_patience p T)"
    unfolding ares_patience_def by (simp add: net_patient_lift[where q="\<lambda>x. T - aw_clock x"])
  from inv show "\<not> is_panic (resolve (ares_api query_a) r n w)" using ares_connector.resolve_returns by blast
  { assume res: "resolve (ares_api query_a) r n w = Ret (f, w')"
    with inv show "(ares_inv (snd w') \<and> answers_from T (snd w') \<and> net_patient N p) \<and> cares_future_live f"
      using ares_connector.resolve_keeps[OF _ res] answers_from_keeps(1)[OF _ res] by blast
    from res show "ares_patience p T w' \<le> ares_patience p T w"
      by (auto simp: ares_api_def ares_patience_def split: prod.splits) }
  assume live: "cares_future_live f"
  show "\<not> is_panic (resolve_poll (ares_api query_a) f w)"
    using ares_connector.resolve_live inv live by blast
  show "as \<noteq> []" if "resolve_poll (ares_api query_a) f w = Ret (Ok (Ready as), f', w')"
    using ares_connector.resolve_answer inv live that by blast
  show "cares_future_live f'" if "resolve_poll (ares_api query_a) f w = Ret (Ok NotReady, f', w')"
    using ares_connector.resolve_pending inv live that by blast
  assume res: "resolve_poll (ares_api query_a) f w = Ret (a, f', w')"
  show "ares_inv (snd w') \<and> answers_from T (snd w') \<and> net_patient N p"
    using ares_connector.resolve_poll_keeps[OF _ live res] answers_from_keeps(2)[OF _ res] inv by blast
  show "ares_patience p T w' \<le> ares_patience p T w \<and> (a = Ok NotReady \<longrightarrow> ares_patience p T w' < ares_patience p T w)"
    using ares_poll_patience[of T "snd w" query_a f "fst w"] inv res by simp
qed

interpretation ares_settling:
  settling_connector "http_api A (lift_net N) (ares_api query_a)" "ares_patience p T"
    "\<lambda>self dst w. ares_inv (snd w) \<and> answers_from T (snd w) \<and> net_patient N p"
  for A and N :: "'n net_api" and query_a p T
  by unfold_locales (rule ares_patient.http_settles)

lemma http_run_phase:
  "run_polls (http_future N R) es (self, w) = Ret (r, self', w') \<Longrightarrow>
   phase_step\<^sup>*\<^sup>* (phase self) (phase self') \<and> self' = self\<lparr>hg_state := hg_state self'\<rparr> \<and>
   (es \<noteq> [] \<longrightarrow> phase self' \<noteq> NotStarted) \<and> (\<forall>x. r = Ok (Ready x) \<longrightarrow> phase self' = Opening)"
proof (induction es arbitrary: self w)
  case (Cons e es)
  obtain C pv4 pv6 where e: "e = (C, pv4, pv6)" by (metis prod.exhaust)
  obtain q u w1 where q: "http_poll N R C pv4 pv6 self w = Ret (q, u, w1)"
    using Cons.prems e by (cases "http_poll N R C pv4 pv6 self w") auto
  note first = http_poll_phase[OF q]
  show ?case
  proof (cases "q = Ok NotReady")
    case True
    with Cons q e have rest: "phase_step\<^sup>*\<^sup>* (phase u) (phase self')" "self' = u\<lparr>hg_state := hg_state self'\<rparr>"
      "\<forall>x. r = Ok (Ready x) \<longrightarrow> phase self' = Opening" by auto
    have "self' = self\<lparr>hg_state := hg_state self'\<rparr>"
      using first rest(2) by (metis http_connecting.surjective http_connecting.update_convs(1))
    moreover have "phase self' \<noteq> NotStarted"
      using phases_forward[OF rest(1)] first by (cases "phase u") auto
    ultimately show ?thesis using first rest by (auto intro: rtranclp_trans)
  next
    case False
    with Cons.prems q e first show ?thesis by auto
  qed
qed auto

section \<open>Properties\<close>

text \<open>
  (C8) The connecting future implements the phases of a connection attempt: over any number of
  polls its phase moves only from not started to looking up to opening sockets, or straight
  to opening for a literal address; a polled future has left the first phase; a connection
  comes from the opening phase only; and the settings of the attempt (port, timeouts, socket
  options) never change.
\<close>

theorem http_run_refines_phases:
  assumes "run_polls (http_future N R) es (self, w) = Ret (r, self', w')"
  shows "phase_step\<^sup>*\<^sup>* (phase self) (phase self') \<and> self' = self\<lparr>hg_state := hg_state self'\<rparr> \<and>
    (es \<noteq> [] \<longrightarrow> phase self' \<noteq> NotStarted) \<and> (\<forall>x. r = Ok (Ready x) \<longrightarrow> phase self' = Opening)"
  by (rule http_run_phase[OF assms])

definition sample_polls ::
    "(http_info list connected_api \<times> (rstr \<Rightarrow> 32 word option) \<times> (rstr \<Rightarrow> 128 word option)) list" where
  "sample_polls = [(sample_connected, \<lambda>h. None, \<lambda>h. None)]"

definition sample_connecting :: "(unit, unit) http_connecting" where
  "sample_connecting = http_connect sample_api (new_with_resolver ()) (sample_dst (lit ''http'') (lit ''a'') (Some 80))"

lemma sample_connecting_state:
  "hg_state sample_connecting = Lazy () (lit ''a'') None" "hg_port sample_connecting = 80"
  "hg_happy_eyeballs_timeout sample_connecting = Some 300" "hg_reuse_address sample_connecting = False"
  "hg_handle sample_connecting = None"
  by (simp_all add: sample_connecting_def http_connect_def sample_api_def sample_dst_def new_with_resolver_def
      scheme_is_def Let_def)

lemma sample_run:
  "run_polls (http_future sample_net (fixed_resolver [IpV4 1])) sample_polls (sample_connecting, [Ok NotReady]) =
    Ret (Ok NotReady, sample_connecting\<lparr>hg_state := Connecting
      \<lparr>ct_local_addr = None, ct_preferred = \<lparr>r_addrs = \<lparr>ia_iter = []\<rparr>, r_current = Some 4\<rparr>,
       ct_fallback = None, ct_reuse_address = False\<rparr>\<rparr>, [])"
proof -
  let ?R = "fixed_resolver [IpV4 1]"
  have "http_poll sample_net ?R sample_connected (\<lambda>h. None) (\<lambda>h. None) sample_connecting [Ok NotReady] =
      http_poll sample_net ?R sample_connected (\<lambda>h. None) (\<lambda>h. None)
        (sample_connecting\<lparr>hg_state := Resolving () None\<rparr>) [Ok NotReady]"
    by (rule http_poll_lazy_name[OF sample_connecting_state(1)]) (simp_all add: try_parse_def fixed_resolver_def)
  also have "\<dots> = http_poll sample_net ?R sample_connected (\<lambda>h. None) (\<lambda>h. None)
        (sample_connecting\<lparr>hg_state := Connecting
          \<lparr>ct_local_addr = None, ct_preferred = remote_new \<lparr>ia_iter = [SocketV4 1 80]\<rparr>,
           ct_fallback = None, ct_reuse_address = False\<rparr>\<rparr>) [Ok NotReady]"
    by (subst http_poll_resolved[where addrs="[IpV4 1]" and la=None and ?w1.0="[Ok NotReady]" and w'="[Ok NotReady]"])
      (auto simp: fixed_resolver_def sample_connecting_state ip_addrs_new_def socket_addr_new_def
        connecting_tcp_new_single)
  finally show ?thesis
    by (simp add: sample_polls_def http_poll_connecting connecting_tcp_poll_def
        sample_connecting_state remote_poll_single[OF sample_tcp_connect(1) sample_connect_poll])
qed

theorem http_run_refines_phases_witness:
  "phase_step\<^sup>*\<^sup>* (phase sample_connecting) Opening"
  using http_run_refines_phases[OF sample_run] by simp

text \<open>
  The resolver is asked at most once per connection: after the first poll nothing the future
  does depends on the \<open>resolve\<close> operation any more. The rest of the run is the same with any
  other operation in its place.
\<close>

theorem http_resolver_asked_once:
  "run_polls (http_future N R) (e # es) s =
     obind (http_future N R e s) (\<lambda>(r, s').
       if r = Ok NotReady then run_polls (http_future N (R\<lparr>resolve := f\<rparr>)) es s' else Ret (r, s'))"
proof (cases "http_future N R e s")
  case (Ret q)
  obtain C pv4 pv6 self w r self' w' where "e = (C, pv4, pv6)" "s = (self, w)" "q = (r, self', w')"
    by (metis prod.exhaust)
  with Ret http_poll_phase[of N R C pv4 pv6 self w r self' w'] http_run_started[of self' N f R es w']
  show ?thesis by simp
qed simp

text \<open>
  (C9) Connecting with the default resolver comes to an end: when the network leaves connection
  attempts pending only finitely often, and c-ares answers every query from some tick on, never
  with an empty list (which would be a panic), then a future that is polled more often than that
  returns a connection or an error. This holds for every host, every non-empty list of
  addresses and whatever the timer of the race does.
\<close>

theorem default_connector_completes:
  assumes "ares_inv aw" and "answers_from T aw" and "net_patient N p"
    and "http_live cares_future_live self"
    and "p net + (T - aw_clock aw) < length envs"
  shows "\<exists>r s'. run_polls (http_future (lift_net N) (ares_api query_a)) envs (self, net, aw) = Ret (r, s') \<and>
    r \<noteq> Ok NotReady"
  using ares_patient.connecting.run_completes[of "(self, net, aw)" T N p envs query_a] assms
  by (simp add: ares_patience_def)

lemma sample_net_patient: "net_patient (sample_net\<lparr>connect_poll := (\<lambda>f w. case w of
    [] \<Rightarrow> (Err (IoError Other ''gone''), []) | x # xs \<Rightarrow> (x, xs))\<rparr>) length"
  by (auto simp: net_patient_def net_keeps_def keeps_def sample_net_def io_ret_def split: list.splits)

theorem default_connector_completes_witness:
  "\<exists>r s'. run_polls (http_future (lift_net (sample_net\<lparr>connect_poll := (\<lambda>f w. case w of
      [] \<Rightarrow> (Err (IoError Other ''gone''), []) | x # xs \<Rightarrow> (x, xs))\<rparr>)) (ares_api (\<lambda>n. 0)))
      (concat (replicate 3 sample_polls))
      (http_connect sample_api (new_with_resolver ()) (sample_dst (lit ''http'') (lit ''a'') None),
       [Ok NotReady], sample_ares) = Ret (r, s') \<and> r \<noteq> Ok NotReady"
proof (rule default_connector_completes[OF _ _ sample_net_patient])
  show "ares_inv sample_ares" by (simp add: ares_inv_def sample_ares_def resolver_cache_default_def)
  show "answers_from 0 sample_ares" by (simp add: answers_from_def sample_ares_def)
  show "http_live cares_future_live
      (http_connect sample_api (new_with_resolver ()) (sample_dst (lit ''http'') (lit ''a'') None))"
    by (simp add: http_live_def http_connect_def sample_api_def sample_dst_def new_with_resolver_def
        scheme_is_def Let_def)
  show "length [Ok NotReady :: nat io_poll] + (0 - aw_clock sample_ares) < length (concat (replicate 3 sample_polls))"
    by (simp add: sample_polls_def sample_ares_def eval_nat_numeral)
qed

end
