(* ===== verification/Streams.thy ===== *)
theory Streams
  imports Http_Prelude
begin

text \<open>
  The stream wrappers: \<open>MaybeHttpsStream\<close> and \<open>TlsStream\<close> of \<open>src/src/https/stream.rs\<close> and
  \<open>ProxyStream\<close> of \<open>src/src/proxy/stream.rs\<close>. A stream type is the record \<open>stream_ops\<close> of its
  \<open>Read\<close>, \<open>Write\<close>, \<open>AsyncRead\<close> and \<open>AsyncWrite\<close> methods; a wrapper builds such a record from
  those of the types it wraps. The TLS streams of \<open>native_tls\<close> and \<open>tokio_tls\<close> are arguments.
  The locale \<open>stream_embedding\<close> says that a wrapper around one stream behaves as that stream;
  every constructor of the two wrappers is an instance.
\<close>

section \<open>Stream types\<close>

text \<open>A read into a buffer of the given size returns the bytes stored at its front.\<close>

record 's stream_ops =
  op_read :: "nat \<Rightarrow> 's \<Rightarrow> bytes io_result \<times> 's"
  op_write :: "bytes \<Rightarrow> 's \<Rightarrow> nat io_result \<times> 's"
  op_flush :: "'s \<Rightarrow> unit io_result \<times> 's"
  op_prepare_uninitialized_buffer :: "'s \<Rightarrow> bytes \<Rightarrow> bool \<times> bytes"
  op_read_buf :: "nat \<Rightarrow> 's \<Rightarrow> bytes io_poll \<times> 's"
  op_shutdown :: "'s \<Rightarrow> unit io_poll \<times> 's"
  op_write_buf :: "bytes \<Rightarrow> 's \<Rightarrow> nat io_poll \<times> 's"

section \<open>The TLS stream\<close>

record 'n tls_stream =
  ts_inner :: 'n

definition tls_stream_from :: "'n \<Rightarrow> 'n tls_stream" where
  "tls_stream_from stream = \<lparr>ts_inner = stream\<rparr>"

definition tls_stream_new :: "'n \<Rightarrow> 'n tls_stream" where
  "tls_stream_new inner = \<lparr>ts_inner = inner\<rparr>"

text \<open>
  The synchronous operations of the \<open>native_tls\<close> stream, its \<open>shutdown\<close>, and the \<open>shutdown\<close> of the
  stream below it, reached by \<open>get_mut\<close>.
\<close>

record 'n native_tls_ops =
  nt_read :: "nat \<Rightarrow> 'n \<Rightarrow> bytes io_result \<times> 'n"
  nt_write :: "bytes \<Rightarrow> 'n \<Rightarrow> nat io_result \<times> 'n"
  nt_flush :: "'n \<Rightarrow> unit io_result \<times> 'n"
  nt_shutdown :: "'n \<Rightarrow> unit io_result \<times> 'n"
  nt_get_mut_shutdown :: "'n \<Rightarrow> unit io_poll \<times> 'n"

text \<open>
  The provided methods of the \<open>tokio_io\<close> traits, which \<open>TlsStream\<close> does not override, are
  built from its \<open>read\<close> and \<open>write\<close>.
\<close>

record 's provided_methods =
  pm_prepare :: "'s \<Rightarrow> bytes \<Rightarrow> bool \<times> bytes"
  pm_read_buf :: "(nat \<Rightarrow> 's \<Rightarrow> bytes io_result \<times> 's) \<Rightarrow> nat \<Rightarrow> 's \<Rightarrow> bytes io_poll \<times> 's"
  pm_write_buf :: "(bytes \<Rightarrow> 's \<Rightarrow> nat io_result \<times> 's) \<Rightarrow> bytes \<Rightarrow> 's \<Rightarrow> nat io_poll \<times> 's"

definition on_inner :: "('n \<Rightarrow> 'a \<times> 'n) \<Rightarrow> 'n tls_stream \<Rightarrow> 'a \<times> 'n tls_stream" where
  "on_inner m self = (case m (ts_inner self) of (r, inner) \<Rightarrow> (r, self\<lparr>ts_inner := inner\<rparr>))"

definition tls_read :: "'n native_tls_ops \<Rightarrow> nat \<Rightarrow> 'n tls_stream \<Rightarrow> bytes io_result \<times> 'n tls_stream" where
  "tls_read T buf = on_inner (nt_read T buf)"

definition tls_write :: "'n native_tls_ops \<Rightarrow> bytes \<Rightarrow> 'n tls_stream \<Rightarrow> nat io_result \<times> 'n tls_stream" where
  "tls_write T buf = on_inner (nt_write T buf)"

definition tls_flush :: "'n native_tls_ops \<Rightarrow> 'n tls_stream \<Rightarrow> unit io_result \<times> 'n tls_stream" where
  "tls_flush T = on_inner (nt_flush T)"

definition tls_shutdown :: "'n native_tls_ops \<Rightarrow> 'n tls_stream \<Rightarrow> unit io_poll \<times> 'n tls_stream" where
  "tls_shutdown T self =
     (case on_inner (nt_shutdown T) self of
        (Ok t, self) \<Rightarrow> on_inner (nt_get_mut_shutdown T) self
      | (Err e, self) \<Rightarrow>
          (case e of
             IoError kind msg \<Rightarrow> if kind = WouldBlock then (Ok NotReady, self) else (Err e, self)))"

definition tls_ops :: "'n native_tls_ops \<Rightarrow> 'n tls_stream provided_methods \<Rightarrow> 'n tls_stream stream_ops" where
  "tls_ops T P =
     \<lparr>op_read = tls_read T, op_write = tls_write T, op_flush = tls_flush T,
      op_prepare_uninitialized_buffer = pm_prepare P,
      op_read_buf = pm_read_buf P (tls_read T),
      op_shutdown = tls_shutdown T,
      op_write_buf = pm_write_buf P (tls_write T)\<rparr>"

section \<open>A stream that might be protected with TLS\<close>

datatype ('t, 'n) maybe_https_stream = Http 't | Https "'n tls_stream"

definition from_native_tls :: "'n \<Rightarrow> ('t, 'n) maybe_https_stream" where
  "from_native_tls inner = Https (tls_stream_new inner)"

definition from_transport :: "'t \<Rightarrow> ('t, 'n) maybe_https_stream" where
  "from_transport inner = Http inner"

definition from_tls_stream :: "'n tls_stream \<Rightarrow> ('t, 'n) maybe_https_stream" where
  "from_tls_stream inner = Https inner"

definition maybe_call ::
    "('t \<Rightarrow> 'a \<times> 't) \<Rightarrow> ('n tls_stream \<Rightarrow> 'a \<times> 'n tls_stream) \<Rightarrow>
     ('t, 'n) maybe_https_stream \<Rightarrow> 'a \<times> ('t, 'n) maybe_https_stream" where
  "maybe_call f g self =
     (case self of
        Http s \<Rightarrow> (case f s of (r, s') \<Rightarrow> (r, Http s'))
      | Https s \<Rightarrow> (case g s of (r, s') \<Rightarrow> (r, Https s')))"

definition maybe_https_ops ::
    "'t stream_ops \<Rightarrow> 'n tls_stream stream_ops \<Rightarrow> ('t, 'n) maybe_https_stream stream_ops" where
  "maybe_https_ops H S =
     \<lparr>op_read = (\<lambda>buf. maybe_call (op_read H buf) (op_read S buf)),
      op_write = (\<lambda>buf. maybe_call (op_write H buf) (op_write S buf)),
      op_flush = maybe_call (op_flush H) (op_flush S),
      op_prepare_uninitialized_buffer = (\<lambda>self buf.
        case self of
          Http s \<Rightarrow> op_prepare_uninitialized_buffer H s buf
        | Https s \<Rightarrow> op_prepare_uninitialized_buffer S s buf),
      op_read_buf = (\<lambda>buf. maybe_call (op_read_buf H buf) (op_read_buf S buf)),
      op_shutdown = maybe_call (op_shutdown H) (op_shutdown S),
      op_write_buf = (\<lambda>buf. maybe_call (op_write_buf H buf) (op_write_buf S buf))\<rparr>"

section \<open>The stream of a proxied connection\<close>

datatype ('r, 's) proxy_stream = Regular 'r | Secured 's

definition match_fn ::
    "('r \<Rightarrow> 'a \<times> 'r) \<Rightarrow> ('s \<Rightarrow> 'a \<times> 's) \<Rightarrow> ('r, 's) proxy_stream \<Rightarrow> 'a \<times> ('r, 's) proxy_stream" where
  "match_fn f g self =
     (case self of
        Regular s \<Rightarrow> (case f s of (r, s') \<Rightarrow> (r, Regular s'))
      | Secured s \<Rightarrow> (case g s of (r, s') \<Rightarrow> (r, Secured s')))"

definition proxy_stream_ops ::
    "'r stream_ops \<Rightarrow> 's stream_ops \<Rightarrow> ('r, 's) proxy_stream stream_ops" where
  "proxy_stream_ops R S =
     \<lparr>op_read = (\<lambda>buf. match_fn (op_read R buf) (op_read S buf)),
      op_write = (\<lambda>buf. match_fn (op_write R buf) (op_write S buf)),
      op_flush = match_fn (op_flush R) (op_flush S),
      op_prepare_uninitialized_buffer = (\<lambda>self buf.
        case self of
          Regular s \<Rightarrow> op_prepare_uninitialized_buffer R s buf
        | Secured s \<Rightarrow> op_prepare_uninitialized_buffer S s buf),
      op_read_buf = (\<lambda>buf. match_fn (op_read_buf R buf) (op_read_buf S buf)),
      op_shutdown = match_fn (op_shutdown R) (op_shutdown S),
      op_write_buf = (\<lambda>buf. match_fn (op_write_buf R buf) (op_write_buf S buf))\<rparr>"

section \<open>Sequences of operations\<close>

datatype stream_call =
    CallRead nat
  | CallWrite bytes
  | CallFlush
  | CallPrepare bytes
  | CallReadBuf nat
  | CallShutdown
  | CallWriteBuf bytes

datatype stream_answer =
    GotBytes "bytes io_result"
  | GotCount "nat io_result"
  | GotUnit "unit io_result"
  | GotPrepared "bool \<times> bytes"
  | PolledBytes "bytes io_poll"
  | PolledUnit "unit io_poll"
  | PolledCount "nat io_poll"

primrec stream_step :: "'s stream_ops \<Rightarrow> stream_call \<Rightarrow> 's \<Rightarrow> stream_answer \<times> 's" where
  "stream_step S (CallRead n) s = map_prod GotBytes id (op_read S n s)"
| "stream_step S (CallWrite b) s = map_prod GotCount id (op_write S b s)"
| "stream_step S CallFlush s = map_prod GotUnit id (op_flush S s)"
| "stream_step S (CallPrepare b) s = (GotPrepared (op_prepare_uninitialized_buffer S s b), s)"
| "stream_step S (CallReadBuf n) s = map_prod PolledBytes id (op_read_buf S n s)"
| "stream_step S CallShutdown s = map_prod PolledUnit id (op_shutdown S s)"
| "stream_step S (CallWriteBuf b) s = map_prod PolledCount id (op_write_buf S b s)"

fun stream_run :: "'s stream_ops \<Rightarrow> stream_call list \<Rightarrow> 's \<Rightarrow> stream_answer list \<times> 's" where
  "stream_run S [] s = ([], s)"
| "stream_run S (c # cs) s =
     (case stream_step S c s of (a, s') \<Rightarrow> map_prod (Cons a) id (stream_run S cs s'))"

section \<open>Wrappers are transparent\<close>

locale stream_embedding =
  fixes inner :: "'s stream_ops"
    and outer :: "'w stream_ops"
    and embed :: "'s \<Rightarrow> 'w"
  assumes step_embed: "stream_step outer c (embed s) = map_prod id embed (stream_step inner c s)"
begin

lemma run_embed: "stream_run outer cs (embed s) = map_prod id embed (stream_run inner cs s)"
  by (induction cs arbitrary: s) (simp_all add: step_embed map_prod_def split: prod.split)

end

lemma maybe_call_embed:
  "maybe_call f g (Http t) = map_prod id Http (f t)"
  "maybe_call f g (Https n) = map_prod id Https (g n)"
  by (simp_all add: maybe_call_def map_prod_def)

lemma match_fn_embed:
  "match_fn f g (Regular t) = map_prod id Regular (f t)"
  "match_fn f g (Secured n) = map_prod id Secured (g n)"
  by (simp_all add: match_fn_def map_prod_def)

interpretation plain: stream_embedding H "maybe_https_ops H S" Http for H S
  by unfold_locales
    (case_tac c; simp add: maybe_https_ops_def maybe_call_embed prod.map_comp comp_def)

interpretation protected: stream_embedding S "maybe_https_ops H S" Https for H S
  by unfold_locales
    (case_tac c; simp add: maybe_https_ops_def maybe_call_embed prod.map_comp comp_def)

interpretation regular: stream_embedding R "proxy_stream_ops R S" Regular for R S
  by unfold_locales
    (case_tac c; simp add: proxy_stream_ops_def match_fn_embed prod.map_comp comp_def)

interpretation secured: stream_embedding S "proxy_stream_ops R S" Secured for R S
  by unfold_locales
    (case_tac c; simp add: proxy_stream_ops_def match_fn_embed prod.map_comp comp_def)

section \<open>Properties\<close>

text \<open>
  (C35) Both wrappers are transparent: any sequence of reads, writes, flushes and shutdowns on a
  wrapped stream gives the answers that the stream inside gives, and leaves the wrapper
  around the state which that stream reached; plain and protected streams alike.
\<close>

theorem wrappers_transparent:
  "stream_run (maybe_https_ops H S) cs (Http t) = map_prod id Http (stream_run H cs t) \<and>
   stream_run (maybe_https_ops H S) cs (Https n) = map_prod id Https (stream_run S cs n) \<and>
   stream_run (proxy_stream_ops R Q) cs (Regular r) = map_prod id Regular (stream_run R cs r) \<and>
   stream_run (proxy_stream_ops R Q) cs (Secured q) = map_prod id Secured (stream_run Q cs q)"
  by (simp add: plain.run_embed protected.run_embed regular.run_embed secured.run_embed)

end
