(* ===== verification/Https_Connector.thy ===== *)
theory Https_Connector
  imports Http_States Streams
begin

text \<open>
  The TLS connector, \<open>src/src/https/client.rs\<close>, over any implementation of \<open>Connect\<close>;
  \<open>native_tls\<close> is the record \<open>tls_api\<close> of the two calls the code makes. \<open>https_connect\<close>
  builds the future that the code builds from the combinators of theory \<open>Combinators\<close>,
  \<open>https_poll\<close> polls it, and \<open>https_api\<close> is the connector as an implementation of
  \<open>Connect\<close>. The promises of theory \<open>Connect_Trait\<close> pass through it: each locale
  \<open>https_...\<close> below takes one of the transport and gives it back for the TLS connector; the
  HTTP connector with the default resolver is an instance of each. The run of the future
  refines \<open>https_session\<close>, the connection written as a sequential program.
\<close>

section \<open>The connector\<close>

record ('h, 'k) https_connector =
  sc_force_https :: bool
  sc_http :: 'h
  sc_tls :: 'k

definition https_from :: "'h \<times> 'k \<Rightarrow> ('h, 'k) https_connector" where
  "https_from args = \<lparr>sc_force_https = False, sc_http = fst args, sc_tls = snd args\<rparr>"

definition https_new_with_resolver_tls :: "'r \<Rightarrow> 'k \<Rightarrow> ('r http_connector, 'k) https_connector" where
  "https_new_with_resolver_tls resolver tls =
     (let http = new_with_resolver resolver; http = enforce_http False http in
      https_from (http, tls))"

text \<open>\<open>build\<close> is the result of \<open>TlsConnector::builder().build()\<close>.\<close>

definition https_new_with_resolver ::
    "(string + 'k) \<Rightarrow> 'r \<Rightarrow> string + ('r http_connector, 'k) https_connector" where
  "https_new_with_resolver build resolver = map_sum id (https_new_with_resolver_tls resolver) build"

text \<open>
  \<open>HttpsConnector::new\<close> uses the shared c-ares resolver and ignores its argument. The first use of
  the shared resolver opens the c-ares channel, and panics when that fails; \<open>channel\<close> is the
  result. What the resolver holds is part of the world, so that its handle carries no data.
\<close>

definition http_connector_new :: "string + 'ch \<Rightarrow> nat \<Rightarrow> unit http_connector outcome" where
  "http_connector_new channel threads = omap (\<lambda>_. new_with_resolver ()) (ARES channel)"

definition https_new_tls ::
    "string + 'ch \<Rightarrow> nat \<Rightarrow> 'k \<Rightarrow> (unit http_connector, 'k) https_connector outcome" where
  "https_new_tls channel threads tls =
     omap (\<lambda>http. let http = enforce_http False http in https_from (http, tls))
       (http_connector_new channel threads)"

definition https_new ::
    "string + 'ch \<Rightarrow> string + 'k \<Rightarrow> nat \<Rightarrow> (string + (unit http_connector, 'k) https_connector) outcome" where
  "https_new channel build threads =
     (case build of
        Err e \<Rightarrow> Ret (Err e)
      | Ok tls \<Rightarrow> omap Ok (https_new_tls channel threads tls))"

text \<open>The connector that these give when the channel opens.\<close>

definition default_https :: "'k \<Rightarrow> (unit http_connector, 'k) https_connector" where
  "default_https tls = https_from (enforce_http False (new_with_resolver ()), tls)"

lemma https_new_tls_Ok: "https_new_tls (Ok q) threads tls = Ret (default_https tls)"
  by (simp add: https_new_tls_def http_connector_new_def ARES_def cares_impl_new_def default_https_def Let_def)

lemma https_new_tls_Err: "https_new_tls (Err e) threads tls = Panic (unwrap_failed e)"
  by (simp add: https_new_tls_def http_connector_new_def ARES_def cares_impl_new_def)

text \<open>The setter and its deprecated twin.\<close>

definition https_only :: "bool \<Rightarrow> ('h, 'k) https_connector \<Rightarrow> ('h, 'k) https_connector" where
  "https_only enable self = self\<lparr>sc_force_https := enable\<rparr>"

definition force_https :: "bool \<Rightarrow> ('h, 'k) https_connector \<Rightarrow> ('h, 'k) https_connector" where
  "force_https enable self = self\<lparr>sc_force_https := enable\<rparr>"

section \<open>The handshake\<close>

datatype 'm handshake_error = HsWouldBlock 'm | HsFailure string

type_synonym ('n, 'm) handshake_result = "'m handshake_error + 'n"

text \<open>
  \<open>native_tls\<close>: \<open>TlsConnector::connect\<close> starts a handshake for a host on a stream,
  \<open>MidHandshakeStream::handshake\<close> resumes one that would block.
\<close>

record ('k, 't, 'n, 'm, 'w) tls_api =
  tls_start :: "'k \<Rightarrow> rstr \<Rightarrow> 't \<Rightarrow> 'w \<Rightarrow> ('n, 'm) handshake_result \<times> 'w"
  tls_resume :: "'m \<Rightarrow> 'w \<Rightarrow> ('n, 'm) handshake_result \<times> 'w"

record ('n, 'm) handshaking =
  hs_inner :: "('n, 'm) handshake_result option"

definition handshaking_poll ::
    "('k, 't, 'n, 'm, 'w) tls_api \<Rightarrow> 'e \<Rightarrow> ('n, 'm) handshaking \<times> 'w \<Rightarrow>
     ((string + 'n async) \<times> ('n, 'm) handshaking \<times> 'w) outcome" where
  "handshaking_poll T e s =
     (case s of (self, w) \<Rightarrow>
        obind (unwrap (PanicMsg ''polled after ready'') (hs_inner self)) (\<lambda>inner.
          let self = self\<lparr>hs_inner := None\<rparr> in
          case inner of
            Ok stream \<Rightarrow> Ret (Ok (Ready stream), self, w)
          | Err (HsWouldBlock mid) \<Rightarrow>
              (case tls_resume T mid w of
                 (Ok stream, w') \<Rightarrow> Ret (Ok (Ready stream), self, w')
               | (Err (HsFailure err), w') \<Rightarrow> Ret (Err err, self, w')
               | (Err (HsWouldBlock mid), w') \<Rightarrow>
                   Ret (Ok NotReady, self\<lparr>hs_inner := Some (Err (HsWouldBlock mid))\<rparr>, w'))
          | Err (HsFailure err) \<Rightarrow> Ret (Err err, self, w)))"

interpretation hs: one_shot_future "handshaking_poll T" "\<lambda>_. True" "\<lambda>s. hs_inner (fst s) \<noteq> None" for T
  by unfold_locales
    (auto simp: handshaking_poll_def Let_def
      split: option.splits sum.splits handshake_error.splits prod.splits)

section \<open>Connecting\<close>

text \<open>
  The boxed future of \<open>HttpsConnecting\<close>: an error, the transport's future with its answer
  mapped, or the transport's future chained with the handshake; the closure of the chain owns
  the TLS connector and the host, the mapping after the handshake owns the metadata.
\<close>

datatype ('f, 'k, 'n, 'm, 'c) https_connecting =
    HttpsError "io_error option"
  | HttpsPlain 'f
  | HttpsProtected "('f, 'k \<times> rstr, ('n, 'm) handshaking \<times> 'c) chain"

definition https_connect ::
    "('u, 's, 'a, 'q) uri_api \<Rightarrow> ('h \<Rightarrow> 'u destination \<Rightarrow> 'f outcome) \<Rightarrow> ('h, 'k) https_connector \<Rightarrow>
     'u destination \<Rightarrow> ('f, 'k, 'n, 'm, 'c) https_connecting outcome" where
  "https_connect A connect self dst =
     (let is_https = (dst_scheme A dst = lit ''https'') in
      if \<not> is_https \<and> sc_force_https self then
        Ret (HttpsError (Some (IoError Other ''HTTPS scheme forced but can't be used'')))
      else
        (let host = dst_host A dst in
         obind (connect (sc_http self) dst) (\<lambda>connecting.
         let tls = sc_tls self in
         if is_https then Ret (HttpsProtected (First connecting (tls, host)))
         else Ret (HttpsPlain connecting))))"

text \<open>The closure given to \<open>and_then\<close>, and the future that it makes.\<close>

definition start_handshake ::
    "('k, 't, 'n, 'm, 'w) tls_api \<Rightarrow> 'k \<times> rstr \<Rightarrow> 't \<times> 'c \<Rightarrow> 'w \<Rightarrow> (('n, 'm) handshaking \<times> 'c) \<times> 'w" where
  "start_handshake T d v w =
     (case (d, v) of ((tls, host), (tcp, connected)) \<Rightarrow>
        (case tls_start T tls host tcp w of
           (r, w') \<Rightarrow> ((\<lparr>hs_inner = Some r\<rparr>, connected), w')))"

definition handshake_future ::
    "('k, 't, 'n, 'm, 'w) tls_api \<Rightarrow>
     ('e, ('n, 'm) handshaking \<times> 'c, 'w, io_error, ('t, 'n) maybe_https_stream \<times> 'c) world_poll" where
  "handshake_future T e s =
     (case s of ((hs, connected), w) \<Rightarrow>
        omap (\<lambda>(r, hs', w'). (r, (hs', connected), w'))
          (map_poll (\<lambda>conn. (Https (tls_stream_new conn), connected)) (IoError Other)
            (handshaking_poll T) e (hs, w)))"

definition https_poll ::
    "('k, 't, 'n, 'm, 'w) tls_api \<Rightarrow> ('e, 'f, 'w, io_error, 't \<times> 'c) world_poll \<Rightarrow>
     ('e, ('f, 'k, 'n, 'm, 'c) https_connecting, 'w, io_error, ('t, 'n) maybe_https_stream \<times> 'c) world_poll" where
  "https_poll T poll e s =
     (case s of
        (HttpsError x, w) \<Rightarrow> omap (\<lambda>(r, x', w'). (r, HttpsError x', w')) (err_poll e (x, w))
      | (HttpsPlain f, w) \<Rightarrow>
          omap (\<lambda>(r, f', w'). (r, HttpsPlain f', w'))
            (map_poll (\<lambda>(tcp, connected). (Http tcp, connected)) id poll e (f, w))
      | (HttpsProtected ch, w) \<Rightarrow>
          omap (\<lambda>(r, ch', w'). (r, HttpsProtected ch', w'))
            (and_then_poll poll (start_handshake T) (handshake_future T) e (ch, w)))"

definition https_api ::
    "('u, 's, 'a, 'q) uri_api \<Rightarrow> ('k, 't, 'n, 'm, 'w) tls_api \<Rightarrow>
     ('h, 'u, 'f, 'e, 'w, io_error, 't \<times> 'c) connect_api \<Rightarrow>
     (('h, 'k) https_connector, 'u, ('f, 'k, 'n, 'm, 'c) https_connecting, 'e, 'w, io_error,
      ('t, 'n) maybe_https_stream \<times> 'c) connect_api" where
  "https_api A T K =
     \<lparr>ca_connect = https_connect A (ca_connect K), ca_poll = https_poll T (ca_poll K)\<rparr>"

lemma https_api_simps [simp]:
  "ca_connect (https_api A T K) = https_connect A (ca_connect K)"
  "ca_poll (https_api A T K) = https_poll T (ca_poll K)"
  by (simp_all add: https_api_def)

section \<open>The contracts of the future\<close>

lemma handshake_future_Ret:
  "handshake_future T e ((hs, c), w) = Ret (q, hc', w') \<longleftrightarrow>
     (\<exists>r hs'. handshaking_poll T e (hs, w) = Ret (r, hs', w') \<and> hc' = (hs', c) \<and>
        q = map_answer (\<lambda>conn. (Https (tls_stream_new conn), c)) (IoError Other) r)"
  by (auto simp: handshake_future_def map_poll_def omap_eq_Ret_iff)

lemma handshake_future_live:
  "hs_inner hs \<noteq> None \<Longrightarrow> \<not> is_panic (handshake_future T e ((hs, c), w))"
  using hs.live_poll[of "(hs, w)" T e] by (simp add: handshake_future_def)

lemma handshake_future_pending:
  assumes "hs_inner hs \<noteq> None" and "handshake_future T e ((hs, c), w) = Ret (Ok NotReady, (hs', c'), w')"
  shows "hs_inner hs' \<noteq> None"
proof -
  have "handshaking_poll T e (hs, w) = Ret (Ok NotReady, hs', w')"
    using assms(2) by (auto simp: handshake_future_Ret dest: sym)
  with hs.live_pending[of "(hs, w)" T e "(hs', w')"] assms(1) show ?thesis by simp
qed

text \<open>What can still be polled, over a transport whose futures have the invariant and the liveness given.\<close>

definition hs_live :: "(('n, 'm) handshaking \<times> 'c) \<times> 'w \<Rightarrow> bool" where
  "hs_live s \<longleftrightarrow> hs_inner (fst (fst s)) \<noteq> None"

definition https_inv ::
    "('f \<times> 'w \<Rightarrow> bool) \<Rightarrow> ('f, 'k, 'n, 'm, 'c) https_connecting \<times> 'w \<Rightarrow> bool" where
  "https_inv I s =
     (case s of
        (HttpsError x, w) \<Rightarrow> True
      | (HttpsPlain f, w) \<Rightarrow> I (f, w)
      | (HttpsProtected ch, w) \<Rightarrow> chain_pred True I (\<lambda>_. True) (ch, w))"

definition https_live ::
    "('f \<times> 'w \<Rightarrow> bool) \<Rightarrow> ('f, 'k, 'n, 'm, 'c) https_connecting \<times> 'w \<Rightarrow> bool" where
  "https_live L s =
     (case s of
        (HttpsError x, w) \<Rightarrow> x \<noteq> None
      | (HttpsPlain f, w) \<Rightarrow> L (f, w)
      | (HttpsProtected ch, w) \<Rightarrow> chain_pred False L hs_live (ch, w))"

lemmas https_state_defs = https_inv_def https_live_def

lemma https_poll_simps:
  "https_poll T poll e (HttpsError x, w) = omap (\<lambda>(r, x', w'). (r, HttpsError x', w')) (err_poll e (x, w))"
  "https_poll T poll e (HttpsPlain f, w) =
     omap (\<lambda>(r, f', w'). (r, HttpsPlain f', w'))
       (map_poll (\<lambda>(tcp, connected). (Http tcp, connected)) id poll e (f, w))"
  "https_poll T poll e (HttpsProtected ch, w) =
     omap (\<lambda>(r, ch', w'). (r, HttpsProtected ch', w'))
       (and_then_poll poll (start_handshake T) (handshake_future T) e (ch, w))"
  by (simp_all add: https_poll_def)

lemmas https_runs =
  wrapped_run[where poll="https_poll T poll" and K=HttpsPlain, OF https_poll_simps(2)]
  wrapped_run[where poll="https_poll T poll" and K=HttpsProtected, OF https_poll_simps(3)] for T poll

lemmas https_settles =
  settles_wrapped[where poll="https_poll T poll" and K=HttpsPlain, OF https_poll_simps(2)]
  settles_wrapped[where poll="https_poll T poll" and K=HttpsProtected, OF https_poll_simps(3)] for T poll

lemma https_connect_cases:
  "dst_scheme A dst = lit ''https'' \<Longrightarrow>
     https_connect A connect self dst =
       omap (\<lambda>f. HttpsProtected (First f (sc_tls self, dst_host A dst))) (connect (sc_http self) dst)"
  "dst_scheme A dst \<noteq> lit ''https'' \<Longrightarrow> sc_force_https self \<Longrightarrow>
     https_connect A connect self dst =
       Ret (HttpsError (Some (IoError Other ''HTTPS scheme forced but can't be used'')))"
  "dst_scheme A dst \<noteq> lit ''https'' \<Longrightarrow> \<not> sc_force_https self \<Longrightarrow>
     https_connect A connect self dst = omap HttpsPlain (connect (sc_http self) dst)"
  by (cases "connect (sc_http self) dst"; simp add: https_connect_def)+

lemma https_connect_Ret:
  assumes "https_connect A connect self dst = Ret st"
  obtains (protected) f where "dst_scheme A dst = lit ''https''" "connect (sc_http self) dst = Ret f"
      "st = HttpsProtected (First f (sc_tls self, dst_host A dst))"
    | (refused) "dst_scheme A dst \<noteq> lit ''https''" "sc_force_https self"
      "st = HttpsError (Some (IoError Other ''HTTPS scheme forced but can't be used''))"
    | (plain) f where "dst_scheme A dst \<noteq> lit ''https''" "\<not> sc_force_https self"
      "connect (sc_http self) dst = Ret f" "st = HttpsPlain f"
  using assms
  by (cases "dst_scheme A dst = lit ''https''"; cases "sc_force_https self")
    (auto simp: https_connect_cases omap_eq_Ret_iff)

interpretation hs_live: live_future "handshake_future T" "\<lambda>_. True" hs_live for T
  by unfold_locales
    (auto simp: hs_live_def handshake_future_live dest: handshake_future_pending[rotated])

text \<open>Over a transport whose futures do not panic, the connector's do not either.\<close>

locale https_transport = live_connector K inv live usable
  for K :: "('h, 'u, 'f, 'e, 'w, io_error, 't \<times> 'c) connect_api" and inv live usable +
  fixes A :: "('u, 's, 'a, 'q) uri_api" and T :: "('k, 't, 'n, 'm, 'w) tls_api"

sublocale https_transport \<subseteq> plain:
  mapped_future "ca_poll K" inv live "\<lambda>(tcp, connected). (Http tcp, connected)" id
  by unfold_locales

sublocale https_transport \<subseteq> protected:
  chained_future "ca_poll K" inv live "handshake_future T" "\<lambda>_. True" hs_live "start_handshake T"
  by unfold_locales (auto simp: start_handshake_def hs_live_def split: prod.splits)

sublocale https_transport \<subseteq> https:
  live_connector "https_api A T K" "https_inv inv" "https_live live" usable
proof
  fix s :: "('f, 'k, 'n, 'm, 'c) https_connecting \<times> 'w" and e
  obtain st w where st: "s = (st, w)" by fastforce
  assume s: "https_inv inv s" "https_live live s"
  show "\<not> is_panic (ca_poll (https_api A T K) e s)"
    using s st plain.mapped.live_poll[of "(_, w)" e] protected.chain.live_poll[of "(_, w)" e]
    by (cases st) (auto simp: https_state_defs https_poll_simps)
  show "https_inv inv s'" if "ca_poll (https_api A T K) e s = Ret (r, s')" for r s'
    using s st that plain.mapped.inv_poll[of "(_, w)" e] protected.chain.inv_poll[of "(_, w)" e]
    by (cases st) (auto simp: https_state_defs https_poll_simps omap_eq_Ret_iff)
  show "https_live live s'" if "ca_poll (https_api A T K) e s = Ret (Ok NotReady, s')" for s'
    using s st that plain.mapped.live_pending[of "(_, w)" e] protected.chain.live_pending[of "(_, w)" e]
    by (cases st) (auto simp: https_state_defs https_poll_simps omap_eq_Ret_iff simp del: map_poll_pending)
next
  fix w :: 'w and self :: "('h, 'k) https_connector" and dst :: "'u destination"
    and st :: "('f, 'k, 'n, 'm, 'c) https_connecting"
  assume w: "usable w" and "ca_connect (https_api A T K) self dst = Ret st"
  then have "https_connect A (ca_connect K) self dst = Ret st" by simp
  then show "https_inv inv (st, w) \<and> https_live live (st, w)"
    by (cases rule: https_connect_Ret) (auto simp: https_state_defs dest: fresh[OF w])
qed

interpretation ares_https:
  https_transport "http_api A (lift_net N) (ares_api query_a)" "\<lambda>s. ares_inv (snd (snd s))"
    "\<lambda>s. http_live cares_future_live (fst s)" "\<lambda>w. ares_inv (snd w)" A T
  for A and N :: "'n net_api" and query_a and T
  by unfold_locales

section \<open>Completion\<close>

text \<open>A TLS library that needs a bounded number of resumptions, see \<open>net_patient\<close>.\<close>

definition tls_patient :: "('k, 't, 'n, 'm, 'w) tls_api \<Rightarrow> ('w \<Rightarrow> nat) \<Rightarrow> bool" where
  "tls_patient T patience \<longleftrightarrow>
     (\<forall>k host t w. patience (snd (tls_start T k host t w)) \<le> patience w) \<and>
     (\<forall>m w. patience (snd (tls_resume T m w)) \<le> patience w) \<and>
     (\<forall>m w m' w'. tls_resume T m w = (Err (HsWouldBlock m'), w') \<longrightarrow> patience w' < patience w)"

lemma handshake_future_patience:
  assumes "tls_patient T p" and "handshake_future T e ((hs, c), w) = Ret (q, s')"
  shows "p (snd s') \<le> p w \<and> (q = Ok NotReady \<longrightarrow> p (snd s') < p w)"
proof -
  obtain r hs' w' where s': "s' = ((hs', c), w')" "handshaking_poll T e (hs, w) = Ret (r, hs', w')"
    "q = Ok NotReady \<longleftrightarrow> r = Ok NotReady"
    using assms(2) by (cases s') (auto simp: handshake_future_Ret)
  have "p w'' \<le> p w" if "tls_resume T m w = (x, w'')" for m x w''
    using assms(1) that unfolding tls_patient_def by (metis snd_conv)
  with s' assms(1) show ?thesis
    by (cases "hs_inner hs") (auto simp: handshaking_poll_def tls_patient_def Let_def
        split: sum.splits handshake_error.splits prod.splits)
qed

interpretation hs_patient:
  patient_future "handshake_future T" "\<lambda>_. tls_patient T p" hs_live "\<lambda>s. p (snd s)" for T p
  by unfold_locales
    (auto simp: hs_live_def handshake_future_live
      dest: handshake_future_pending[rotated] handshake_future_patience)

text \<open>The transport and the TLS library draw on the same patience of the world.\<close>

locale https_settling = settling_connector K patience usable
  for K :: "('h, 'u, 'f, 'e, 'w, io_error, 't \<times> 'c) connect_api" and patience usable +
  fixes A :: "('u, 's, 'a, 'q) uri_api" and T :: "('k, 't, 'n, 'm, 'w) tls_api"

sublocale https_settling \<subseteq> https:
  settling_connector "https_api A T K" patience
    "\<lambda>self dst w. usable (sc_http self) dst w \<and> tls_patient T patience"
proof
  fix self :: "('h, 'k) https_connector" and dst w and es :: "'e list"
  assume ok: "usable (sc_http self) dst w \<and> tls_patient T patience" and es: "patience w < length es"
  then obtain f where f: "ca_connect K (sc_http self) dst = Ret f" "settles (ca_poll K) patience es (f, w)"
    using settled[of "sc_http self" dst w es] by (auto simp: connect_settles_def)
  have hs: "settles (handshake_future T) patience es' (b, w2)"
    if "patience w1 < length es'" "start_handshake T d v w1 = (b, w2)" for w1 es' d v b w2
  proof -
    have "patience w2 \<le> patience w1" "hs_live (b, w2)"
      using that(2) ok by (auto simp: start_handshake_def tls_patient_def hs_live_def split: prod.splits)
        (metis snd_conv)
    with hs_patient.run_until_settles[of T patience "(b, w2)" es'] ok that(1) show ?thesis
      by (force simp: settles_def)
  qed
  consider "dst_scheme A dst = lit ''https''"
    | "dst_scheme A dst \<noteq> lit ''https''" "sc_force_https self"
    | "dst_scheme A dst \<noteq> lit ''https''" "\<not> sc_force_https self" by blast
  then show "connect_settles (https_api A T K) patience self dst es w"
  proof cases
    case 1
    have "settles (https_poll T (ca_poll K)) patience es
        (HttpsProtected (First f (sc_tls self, dst_host A dst)), w)"
      by (rule https_settles(2))
        (rule settles_and_then[OF f(2)], rule hs)
    with 1 f(1) show ?thesis by (simp add: connect_settles_def https_connect_cases)
  next
    case 2
    have "settles (https_poll T (ca_poll K)) patience es
        (HttpsError (Some (IoError Other ''HTTPS scheme forced but can't be used'')), w)"
      by (rule settles_at_once) (use es in \<open>auto simp: https_poll_simps\<close>)
    with 2 show ?thesis by (simp add: connect_settles_def https_connect_cases)
  next
    case 3
    have "settles (https_poll T (ca_poll K)) patience es (HttpsPlain f, w)"
      by (rule https_settles(1)) (rule settles_map[OF f(2)])
    with 3 f(1) show ?thesis by (simp add: connect_settles_def https_connect_cases)
  qed
qed

interpretation ares_https_settling:
  https_settling "http_api A (lift_net N) (ares_api query_a)" "ares_patience p T0"
    "\<lambda>self dst w. ares_inv (snd w) \<and> answers_from T0 (snd w) \<and> net_patient N p" A T
  for A and N :: "'n net_api" and query_a and p T0 and T
  by unfold_locales

section \<open>The connection as a sequential program\<close>

text \<open>
  What connecting means, without futures: run the transport to its end, then, for \<open>https\<close>, a
  handshake for the host of the destination on the stream it gave, with the polls that are
  left.
\<close>

definition https_session ::
    "('u, 's, 'a, 'q) uri_api \<Rightarrow> ('k, 't, 'n, 'm, 'w) tls_api \<Rightarrow>
     ('h, 'u, 'f, 'e, 'w, io_error, 't \<times> 'c) connect_api \<Rightarrow> ('h, 'k) https_connector \<Rightarrow> 'u destination \<Rightarrow>
     'e list \<Rightarrow> 'w \<Rightarrow> ((('t, 'n) maybe_https_stream \<times> 'c) io_poll \<times> 'w) outcome" where
  "https_session A T K self dst es w =
     (if dst_scheme A dst \<noteq> lit ''https'' \<and> sc_force_https self then
        Ret (Err (IoError Other ''HTTPS scheme forced but can't be used''), w)
      else
        obind (ca_connect K (sc_http self) dst) (\<lambda>f.
        obind (run_until (ca_poll K) es (f, w)) (\<lambda>((r, _, w1), es').
          case r of
            Err x \<Rightarrow> Ret (Err x, w1)
          | Ok NotReady \<Rightarrow> Ret (Ok NotReady, w1)
          | Ok (Ready (tcp, connected)) \<Rightarrow>
              if dst_scheme A dst = lit ''https'' then
                (case tls_start T (sc_tls self) (dst_host A dst) tcp w1 of (h, w2) \<Rightarrow>
                   omap (\<lambda>(q, _, w3).
                       (map_answer (\<lambda>conn. (Https (tls_stream_new conn), connected)) (IoError Other) q, w3))
                     (run_polls (handshaking_poll T) es' (\<lparr>hs_inner = Some h\<rparr>, w2)))
              else Ret (Ok (Ready (Http tcp, connected)), w1))))"

lemma handshake_future_run:
  "run_polls (handshake_future T) es ((hs, c), w) =
     omap (\<lambda>(r, hs', w'). (map_answer (\<lambda>conn. (Https (tls_stream_new conn), c)) (IoError Other) r, (hs', c), w'))
       (run_polls (handshaking_poll T) es (hs, w))"
proof -
  have "run_polls (handshake_future T) es ((hs, c), w) = omap (\<lambda>(r, hs', w'). (r, (hs', c), w'))
      (run_polls (map_poll (\<lambda>conn. (Https (tls_stream_new conn), c)) (IoError Other) (handshaking_poll T)) es (hs, w))"
    by (rule wrapped_run[where K="\<lambda>hs. (hs, c)"]) (simp add: handshake_future_def)
  then show ?thesis
    by (cases "run_polls (handshaking_poll T) es (hs, w)") (auto simp: map_run)
qed

lemma https_run_session:
  assumes "es \<noteq> []"
  shows "omap (\<lambda>(r, _, w'). (r, w')) (connect_run (https_api A T K) self dst es w) =
    https_session A T K self dst es w"
proof (cases "dst_scheme A dst \<noteq> lit ''https'' \<and> sc_force_https self")
  case True
  with assms show ?thesis
    by (cases es) (simp_all add: connect_run_def https_connect_cases https_session_def https_poll_simps)
next
  case False
  show ?thesis
  proof (cases "ca_connect K (sc_http self) dst")
    case (Panic x)
    with False show ?thesis by (auto simp: connect_run_def https_connect_def https_session_def Let_def)
  next
    case (Ret f)
    with False show ?thesis
      by (cases "dst_scheme A dst = lit ''https''"; cases "run_until (ca_poll K) es (f, w)")
        (auto simp: connect_run_def https_connect_cases https_runs and_then_run map_run run_polls_until[of "ca_poll K"]
          https_session_def start_handshake_def handshake_future_run case_prod_unfold split: sum.split async.split)
  qed
qed

text \<open>What a successful connection was made of.\<close>

lemma https_protected_run:
  fixes es :: "'e list"
  assumes "run_polls (and_then_poll poll (start_handshake T) (handshake_future T)) es (First f (tls, host), w) =
      Ret (Ok (Ready (stream, connected)), ch, w')"
  obtains es1 tcp a w1 h w2 es2 hs conn where
    "run_polls poll es1 (f, w) = Ret (Ok (Ready (tcp, connected)), a, w1)"
    "tls_start T tls host tcp w1 = (h, w2)"
    "run_polls (handshaking_poll T) (es2 :: 'e list) (\<lparr>hs_inner = Some h\<rparr>, w2) = Ret (Ok (Ready conn), hs, w')"
    "stream = Https (tls_stream_new conn)"
proof (rule and_then_run_Ready[OF assms])
  fix es0 e es1 v a' w1 b w2 b'
  assume *: "run_polls poll (es0 @ [e]) (f, w) = Ret (Ok (Ready v), a', w1)"
    "start_handshake T (tls, host) v w1 = (b, w2)"
    "run_polls (handshake_future T) (e # es1) (b, w2) = Ret (Ok (Ready (stream, connected)), b', w')"
  obtain tcp c where v: "v = (tcp, c)" by fastforce
  obtain h where h: "tls_start T tls host tcp w1 = (h, w2)" "b = (\<lparr>hs_inner = Some h\<rparr>, c)"
    using *(2) v by (auto simp: start_handshake_def split: prod.splits)
  with *(3) obtain r hs where hs: "run_polls (handshaking_poll T) (e # es1) (\<lparr>hs_inner = Some h\<rparr>, w2) = Ret (r, hs, w')"
    "map_answer (\<lambda>conn. (Https (tls_stream_new conn), c)) (IoError Other) r = Ok (Ready (stream, connected))"
    unfolding h(2) handshake_future_run by (auto simp: omap_eq_Ret_iff)
  then obtain conn where "r = Ok (Ready conn)" "stream = Https (tls_stream_new conn)" "connected = c"
    by (auto simp: map_answer_Ready)
  with that[OF _ h(1), of "es0 @ [e]" a' "e # es1" conn hs] *(1) v hs(1) show thesis
    by (simp del: run_polls.simps)
qed

lemma https_run_protects:
  fixes es :: "'e list"
  assumes "connect_run (https_api A T K) self dst es w = Ret (Ok (Ready (stream, connected)), s', w')"
  shows "(case stream of
       Https n \<Rightarrow> dst_scheme A dst = lit ''https'' \<and>
         (\<exists>es1 tcp f w1 h w2 (es2 :: 'e list) hs.
           connect_run K (sc_http self) dst es1 w = Ret (Ok (Ready (tcp, connected)), f, w1) \<and>
           tls_start T (sc_tls self) (dst_host A dst) tcp w1 = (h, w2) \<and>
           run_polls (handshaking_poll T) es2 (\<lparr>hs_inner = Some h\<rparr>, w2) = Ret (Ok (Ready (ts_inner n)), hs, w'))
     | Http tcp \<Rightarrow> dst_scheme A dst \<noteq> lit ''https'' \<and> \<not> sc_force_https self \<and>
         (\<exists>f. connect_run K (sc_http self) dst es w = Ret (Ok (Ready (tcp, connected)), f, w')))"
proof -
  obtain st where st: "https_connect A (ca_connect K) self dst = Ret st"
    and run: "run_polls (https_poll T (ca_poll K)) es (st, w) = Ret (Ok (Ready (stream, connected)), s', w')"
    using assms by (auto simp: connect_run_Ret)
  from st show ?thesis
  proof (cases rule: https_connect_Ret)
    case (protected f)
    with run obtain ch where "run_polls (and_then_poll (ca_poll K) (start_handshake T) (handshake_future T)) es
        (First f (sc_tls self, dst_host A dst), w) = Ret (Ok (Ready (stream, connected)), ch, w')"
      by (auto simp: https_runs omap_eq_Ret_iff)
    then show ?thesis
      by (rule https_protected_run) (use protected in \<open>auto simp: connect_run_Ret tls_stream_new_def intro!: exI\<close>)
  next
    case refused
    with run show ?thesis by (cases es) (simp_all add: https_poll_simps)
  next
    case (plain f)
    with run show ?thesis
      by (auto simp: https_runs map_run omap_eq_Ret_iff map_answer_Ready_iff connect_run_Ret)
  qed
qed

locale https_serving = serving_connector A K ok
  for A :: "('u, 's, 'a, 'q) uri_api" and K :: "('h, 'u, 'f, 'e, 'w, io_error, 't \<times> 'c) connect_api" and ok +
  fixes T :: "('k, 't, 'n, 'm, 'w) tls_api"

sublocale https_serving \<subseteq> https: serving_connector A "https_api A T K" ok
proof
  fix self :: "('h, 'k) https_connector" and dst es w x s'
  assume ok: ok and "connect_run (https_api A T K) self dst es w = Ret (Ok (Ready x), s')"
  then have "connect_run (https_api A T K) self dst es w = Ret (Ok (Ready (fst x, snd x)), fst s', snd s')" by simp
  from https_run_protects[OF this] show "uri_host A (dst_uri dst) \<noteq> None"
    by (auto split: maybe_https_stream.splits dest: served[OF ok])
qed

interpretation https_over_http: https_serving A "http_api A N R" True T for A N R T
  by unfold_locales

section \<open>Properties\<close>

text \<open>
  (C13) The future built from the combinators implements the sequential program: polled at least
  once, it gives the answer and leaves the world of running the transport to its end and then,
  for an \<open>https\<close> destination, the handshake for its host on the transport's stream. No poll is
  lost between the two, and for a refused destination the transport is not even started.
\<close>

theorem https_run_is_session:
  assumes "es \<noteq> []"
  shows "omap (\<lambda>(r, _, w'). (r, w')) (connect_run (https_api A T K) self dst es w) =
    https_session A T K self dst es w"
  by (rule https_run_session[OF assms])

definition sample_tls_api :: "(unit, nat, nat, nat, nat) tls_api" where
  "sample_tls_api = \<lparr>tls_start = (\<lambda>k host t w. (Err (HsWouldBlock t), w)),
     tls_resume = (\<lambda>m w. if w = 0 then (Ok (m + 1), w) else (Err (HsWouldBlock m), w - 1))\<rparr>"

text \<open>A transport that is pending once, then connected.\<close>

definition sample_transport :: "(unit, bool, nat, io_error, nat \<times> unit) world_poll" where
  "sample_transport e s =
     (case s of (waited, w) \<Rightarrow>
        if waited then Ret (Ok (Ready (7, ())), True, w) else Ret (Ok NotReady, True, w))"

definition sample_transport_api :: "(unit, sample_uri, bool, unit, nat, io_error, nat \<times> unit) connect_api" where
  "sample_transport_api = \<lparr>ca_connect = (\<lambda>h d. Ret False), ca_poll = sample_transport\<rparr>"

lemma sample_https_run:
  "connect_run (https_api sample_api sample_tls_api sample_transport_api) (https_only True (https_from ((), ())))
      (sample_dst (lit ''https'') (lit ''a'') None) [(), (), (), ()] 2 =
    Ret (Ok (Ready (Https \<lparr>ts_inner = 8\<rparr>, ())),
      HttpsProtected (Second (\<lparr>hs_inner = None\<rparr>, ())), 0)"
  by (simp add: connect_run_def https_connect_def https_only_def https_from_def dst_scheme_def dst_host_def sample_api_def
      sample_dst_def https_poll_simps sample_transport_api_def sample_transport_def start_handshake_def
      handshake_future_def map_poll_def sample_tls_api_def handshaking_poll_def tls_stream_new_def)

theorem https_run_is_session_witness:
  "https_session sample_api sample_tls_api sample_transport_api (https_only True (https_from ((), ())))
      (sample_dst (lit ''https'') (lit ''a'') None) [(), (), (), ()] 2 =
    Ret (Ok (Ready (Https \<lparr>ts_inner = 8\<rparr>, ())), 0)"
  using https_run_is_session[of "[(), (), (), ()]" sample_api sample_tls_api sample_transport_api
      "https_only True (https_from ((), ()))" "sample_dst (lit ''https'') (lit ''a'') None" 2]
  by (simp add: sample_https_run)

text \<open>
  (C14) The scheme decides about TLS: when connecting succeeds, an \<open>https\<close> destination got a TLS
  stream whose handshake was started for the destination's host on the very stream that the
  transport connector made for it, and any other destination got the transport's stream
  itself. A connector restricted to \<open>https\<close> succeeds for no other scheme.
\<close>

theorem https_connect_protects:
  fixes es :: "'e list"
  assumes "connect_run (https_api A T K) self dst es w = Ret (Ok (Ready (stream, connected)), s', w')"
  shows "(case stream of
       Https n \<Rightarrow> dst_scheme A dst = lit ''https'' \<and>
         (\<exists>es1 tcp f w1 h w2 (es2 :: 'e list) hs.
           connect_run K (sc_http self) dst es1 w = Ret (Ok (Ready (tcp, connected)), f, w1) \<and>
           tls_start T (sc_tls self) (dst_host A dst) tcp w1 = (h, w2) \<and>
           run_polls (handshaking_poll T) es2 (\<lparr>hs_inner = Some h\<rparr>, w2) = Ret (Ok (Ready (ts_inner n)), hs, w'))
     | Http tcp \<Rightarrow> dst_scheme A dst \<noteq> lit ''https'' \<and> \<not> sc_force_https self \<and>
         (\<exists>f. connect_run K (sc_http self) dst es w = Ret (Ok (Ready (tcp, connected)), f, w')))"
  by (rule https_run_protects[OF assms])

theorem https_connect_protects_witness:
  "dst_scheme sample_api (sample_dst (lit ''https'') (lit ''a'') None) = lit ''https''"
  using https_connect_protects[OF sample_https_run] by auto

text \<open>
  Connecting over the HTTP connector with the default resolver never panics, for any sequence
  of polls and whatever the network, c-ares (which reports a name without addresses as an
  error) and the TLS library do: neither the address loop, nor the handshake polled after it
  was ready, nor a combinator polled after it was done can be reached.
\<close>

lemma https_connect_never_panics:
  assumes "ares_inv aw"
  shows "\<not> is_panic (connect_run (https_api A T (http_api A (lift_net N) (ares_api query_a))) self dst es (net, aw))"
  using ares_https.https.run_panics_iff[of "(net, aw)" A T N query_a self dst es] assms
  by (auto simp: https_connect_def Let_def)

end
