(* ===== verification/Exchange.thy ===== *)
theory Exchange
  imports Client Https_Connector
begin

text \<open>
  The client over a connector, and over the stack that \<open>HttpsConnector::new\<close> builds: the TLS
  connector on the HTTP connector with the default resolver. \<open>client_request\<close> is
  \<open>Client::request\<close> of \<open>src/src/lib.rs\<close> with its first \<open>await\<close> spelled out: the connector of
  the client makes a future, the executor polls it in the environments \<open>es\<close>, and the rest of
  the request runs on the stream that it gave. \<open>wire\<close> is what the peer of a stream does.
\<close>

section \<open>A request on a connection\<close>

lemma request_delivers:
  assumes "connect \<lparr>dst_uri = rq_uri req\<rparr> = Ok (Ready c)"
    and "uri_host A (rq_uri req) = Some host"
    and "rq_body req = map_option (map Ok) vs"
    and "answers c = replicate (Suc (length (body_pieces vs))) (Ok ())"
    and "wf_status version code reason" and "list_all wf_field hs"
    and "length (render_head version code reason hs) \<le> head_capacity"
    and "until_eof (arrivals c) = Some (render_head version code reason hs @ data)"
    and "from_u16 (of_nat code) = Some sc" and "length uninit = 4096"
    and "arrival_bytes (arrivals c) < usize_size - 4096"
    and "announced_enough (find_content_length (stored_fields uni hs)) data"
  shows "\<exists>resp c'. request oc A uni as_str from_u16 uninit connect req = Ret (Ok (Ready resp), Some c') \<and>
    sent c' = sent c @
      request_head A uni (as_str (rq_method req)) host (rq_uri req) (rq_headers req) @
      concat (body_pieces vs) \<and>
    response_status resp = sc \<and>
    (\<forall>name. header_map_get (response_headers resp) name = map_of (stored_fields uni hs) name) \<and>
    (\<forall>fuel. arrival_work (arrivals c) + 2 < fuel \<longrightarrow>
       (\<exists>b'. read_body oc fuel (into_body resp) = Some (Ret (data, Eof, b'))))"
proof -
  let ?c = "c\<lparr>answers := [], sent := sent c @
      request_head A uni (as_str (rq_method req)) host (rq_uri req) (rq_headers req) @
      concat (body_pieces vs)\<rparr>"
  obtain resp c' where "receive oc uni from_u16 uninit ?c = Ret (Ok (Ready resp), c')"
    and "rs_status_code resp = sc" and "rs_headers resp = header_map_new (stored_fields uni hs)"
    and "sent c' = sent ?c"
    and "\<And>fuel. arrival_work (arrivals c) + 2 < fuel \<Longrightarrow>
       \<exists>b'. read_body oc fuel (rs_body resp) = Some (Ret (data, Eof, b'))"
    using receive_delivers[OF assms(5-7), of ?c data from_u16 sc uninit uni oc] assms(8-12) by auto
  then show ?thesis
    using request_sends[where connect=connect and req=req, OF assms(1-4), of oc uni as_str from_u16 uninit]
    by (intro exI[of _ resp] exI[of _ c'])
      (simp add: response_status_def response_headers_def into_body_def header_map_get_map_of)
qed

section \<open>A request over a connector\<close>

definition client_request ::
    "bool \<Rightarrow> ('u, 's, 'a, 'q) uri_api \<Rightarrow> (rstr \<Rightarrow> rstr) \<Rightarrow> ('m \<Rightarrow> rstr) \<Rightarrow> (u16 \<Rightarrow> 'sc option) \<Rightarrow> bytes \<Rightarrow>
     ('k, 'u, 'f, 'e, 'w, io_error, 't \<times> 'c) connect_api \<Rightarrow> ('t \<Rightarrow> conn) \<Rightarrow>
     'k client \<Rightarrow> ('m, 'v, 'u, bytes io_result list) request \<Rightarrow> 'e list \<Rightarrow> 'w \<Rightarrow>
     (('sc, body) response io_poll \<times> conn option \<times> 'w) outcome" where
  "client_request oc A uni as_str from_u16 uninit K wire self req es w =
     obind (connect_run K (cl_inner self) \<lparr>dst_uri = rq_uri req\<rparr> es w) (\<lambda>(r, _, w').
       omap (\<lambda>(res, c). (res, c, w'))
         (request oc A uni as_str from_u16 uninit (\<lambda>_. map_answer (\<lambda>(conn, _). wire conn) id r) req))"

text \<open>Sending does not read.\<close>

lemma conn_write_all_arrivals: "conn_write_all v c = (r, c') \<Longrightarrow> arrivals c' = arrivals c"
  by (auto simp: conn_write_all_def split: list.splits sum.splits)

lemma send_body_arrivals: "send_body items c = (r, c') \<Longrightarrow> arrivals c' = arrivals c"
proof (induction items c arbitrary: r c' rule: send_body.induct)
  case (3 v items c)
  obtain q c1 where q: "conn_write_all v c = (q, c1)" by fastforce
  with 3 show ?case
    by (auto dest: conn_write_all_arrivals split: sum.splits async.splits)
qed auto

text \<open>Where a request can panic: on a missing host, or on what arrives from the connection.\<close>

lemma request_panic:
  assumes "is_panic (request oc A uni as_str from_u16 uninit connect req)"
  shows "\<exists>c. connect \<lparr>dst_uri = rq_uri req\<rparr> = Ok (Ready c) \<and>
    (uri_host A (rq_uri req) = None \<or>
     (\<exists>c'. arrivals c' = arrivals c \<and> is_panic (receive oc uni from_u16 uninit c')))"
proof -
  obtain c where c: "connect \<lparr>dst_uri = rq_uri req\<rparr> = Ok (Ready c)"
    using assms by (auto simp: request_def split: sum.split_asm async.split_asm)
  show ?thesis
  proof (cases "uri_host A (rq_uri req)")
    case (Some host)
    obtain hdr where hdr: "build_req A uni (as_str (rq_method req)) (rq_uri req) (rq_headers req) = Ret hdr"
      using Some by (simp add: build_req_reference)
    obtain q c1 where q: "conn_write_all hdr c = (q, c1)" by fastforce
    obtain q2 c2 where q2: "(case rq_body req of None \<Rightarrow> (Ok (Ready ()), c1) | Some items \<Rightarrow> send_body items c1) = (q2, c2)"
      by fastforce
    have "arrivals c2 = arrivals c"
      using conn_write_all_arrivals[OF q] q2 by (auto dest: send_body_arrivals split: option.splits)
    moreover have "is_panic (receive oc uni from_u16 uninit c2)"
      using assms c hdr q q2 by (auto simp: request_def split: sum.split_asm async.split_asm)
    ultimately show ?thesis using c by blast
  qed (use c in simp)
qed

text \<open>
  A peer that accepts the head and \<open>n\<close> pieces of a body, and answers with \<open>answer\<close> up to the end
  of the connection.
\<close>

definition peer_serves :: "nat \<Rightarrow> bytes \<Rightarrow> conn \<Rightarrow> bool" where
  "peer_serves n answer c \<longleftrightarrow>
     answers c = replicate (Suc n) (Ok ()) \<and> sent c = [] \<and> until_eof (arrivals c) = Some answer \<and>
     arrival_bytes (arrivals c) < usize_size - 4096"

section \<open>Over any connector that keeps its promises\<close>

text \<open>
  The client needs of a connector that its future does not panic and that it serves only
  destinations with a host, on which \<open>build_req\<close> relies.
\<close>

locale safe_client = live_connector K inv live usable + serving_connector A K ok
  for A :: "('u, 's, 'a, 'q) uri_api" and K :: "('k, 'u, 'f, 'e, 'w, io_error, 't \<times> 'c) connect_api"
    and inv live usable ok
begin

lemma client_request_safe:
  assumes ok and "usable w" and "\<not> is_panic (ca_connect K (cl_inner self) \<lparr>dst_uri = rq_uri req\<rparr>)"
    and "\<And>n. 100 \<le> unat n \<Longrightarrow> unat n \<le> 599 \<Longrightarrow> from_u16 n \<noteq> None"
    and "\<And>stream c. arrivals c = arrivals (wire stream) \<Longrightarrow> \<not> is_panic (read_head oc uni [] c)"
  shows "\<not> is_panic (client_request oc A uni as_str from_u16 uninit K wire self req es w)"
proof
  assume panic: "is_panic (client_request oc A uni as_str from_u16 uninit K wire self req es w)"
  let ?run = "connect_run K (cl_inner self) \<lparr>dst_uri = rq_uri req\<rparr> es w"
  have "\<not> is_panic ?run" using run_panics_iff[OF assms(2)] assms(3) by simp
  then obtain r s w' where run: "?run = Ret (r, s, w')" by (cases ?run) auto
  with panic have "is_panic (request oc A uni as_str from_u16 uninit
      (\<lambda>_. map_answer (\<lambda>(conn, _). wire conn) id r) req)"
    by (simp add: client_request_def)
  then obtain c where c: "map_answer (\<lambda>(conn, _). wire conn) id r = Ok (Ready c)"
    "uri_host A (rq_uri req) = None \<or> (\<exists>c'. arrivals c' = arrivals c \<and> is_panic (receive oc uni from_u16 uninit c'))"
    by (blast dest: request_panic)
  from c(1) obtain stream k where r: "r = Ok (Ready (stream, k))" "c = wire stream"
    by (auto simp: map_answer_Ready_iff)
  with c(2) served[OF assms(1) run[unfolded r(1)]] obtain c' where "arrivals c' = arrivals (wire stream)"
    "is_panic (receive oc uni from_u16 uninit c')" by auto
  with receive_panic_iff[where ?from_u16.0=from_u16, OF assms(4)] assms(5) show False by blast
qed

end

text \<open>When connecting also comes to an end, so does the exchange.\<close>

locale settling_client = settling_connector K patience usable + serving_connector A K ok
  for A :: "('u, 's, 'a, 'q) uri_api" and K :: "('k, 'u, 'f, 'e, 'w, io_error, 't \<times> 'c) connect_api"
    and patience usable ok
begin

lemma client_exchange:
  assumes ok and "usable (cl_inner self) \<lparr>dst_uri = rq_uri req\<rparr> w" and "patience w < length es"
    and "rq_body req = map_option (map Ok) vs"
    and "wf_status version code reason" and "list_all wf_field hs"
    and "length (render_head version code reason hs) \<le> head_capacity"
    and "from_u16 (of_nat code) = Some sc" and "length uninit = 4096"
    and "announced_enough (find_content_length (stored_fields uni hs)) data"
    and "\<forall>stream k s'. connect_run K (cl_inner self) \<lparr>dst_uri = rq_uri req\<rparr> es w = Ret (Ok (Ready (stream, k)), s') \<longrightarrow>
      peer_serves (length (body_pieces vs)) (render_head version code reason hs @ data) (wire stream)"
  obtains (failed) e s' w' where
    "connect_run K (cl_inner self) \<lparr>dst_uri = rq_uri req\<rparr> es w = Ret (Err e, s', w')"
    "client_request oc A uni as_str from_u16 uninit K wire self req es w = Ret (Err e, None, w')"
  | (answered) stream k s' w' host resp c' where
    "connect_run K (cl_inner self) \<lparr>dst_uri = rq_uri req\<rparr> es w = Ret (Ok (Ready (stream, k)), s', w')"
    "client_request oc A uni as_str from_u16 uninit K wire self req es w = Ret (Ok (Ready resp), Some c', w')"
    "uri_host A (rq_uri req) = Some host"
    "sent c' = request_head A uni (as_str (rq_method req)) host (rq_uri req) (rq_headers req) @
      concat (body_pieces vs)"
    "response_status resp = sc"
    "\<forall>name. header_map_get (response_headers resp) name = map_of (stored_fields uni hs) name"
    "\<forall>fuel. arrival_work (arrivals (wire stream)) + 2 < fuel \<longrightarrow>
       (\<exists>b'. read_body oc fuel (into_body resp) = Some (Ret (data, Eof, b')))"
proof -
  obtain r s w' where run: "connect_run K (cl_inner self) \<lparr>dst_uri = rq_uri req\<rparr> es w = Ret (r, s, w')"
    and r: "r \<noteq> Ok NotReady"
    using connect_settles_completes[OF settled[OF assms(2,3)]] by blast
  show thesis
  proof (cases r)
    case (Inl e)
    with run show ?thesis by (intro failed[of e s w']) (simp_all add: client_request_def request_def)
  next
    case (Inr x)
    with r obtain stream k where x: "r = Ok (Ready (stream, k))" by (cases x) auto
    note run = run[unfolded x]
    obtain host where host: "uri_host A (rq_uri req) = Some host" using served[OF assms(1) run] by auto
    note peer = assms(11)[rule_format, OF run, unfolded peer_serves_def]
    from request_delivers[where connect="\<lambda>_. Ok (Ready (wire stream))" and req=req and c="wire stream"
        and oc=oc and uni=uni and as_str=as_str and ?from_u16.0=from_u16 and uninit=uninit and data=data,
        OF _ host assms(4) _ assms(5-7) _ assms(8,9) _ assms(10)] peer
    obtain resp c' where d: "request oc A uni as_str from_u16 uninit (\<lambda>_. Ok (Ready (wire stream))) req =
        Ret (Ok (Ready resp), Some c')"
      "sent c' = request_head A uni (as_str (rq_method req)) host (rq_uri req) (rq_headers req) @
        concat (body_pieces vs)" "response_status resp = sc"
      "\<forall>name. header_map_get (response_headers resp) name = map_of (stored_fields uni hs) name"
      "\<forall>fuel. arrival_work (arrivals (wire stream)) + 2 < fuel \<longrightarrow>
         (\<exists>b'. read_body oc fuel (into_body resp) = Some (Ret (data, Eof, b')))" by auto
    show ?thesis
      by (rule answered[OF run _ host d(2-5)]) (simp add: client_request_def run d(1))
  qed
qed

end

section \<open>Over the TLS connector\<close>

interpretation ares_client:
  safe_client A "https_api A T (http_api A (lift_net N) (ares_api query_a))"
    "https_inv (\<lambda>s. ares_inv (snd (snd s)))" "https_live (\<lambda>s. http_live cares_future_live (fst s))"
    "\<lambda>w. ares_inv (snd w)" True
  for A and N :: "'n net_api" and query_a and T
  by unfold_locales

interpretation ares_exchange:
  settling_client A "https_api A T (http_api A (lift_net N) (ares_api query_a))" "ares_patience p T0"
    "\<lambda>self dst w. (ares_inv (snd w) \<and> answers_from T0 (snd w) \<and> net_patient N p) \<and> tls_patient T (ares_patience p T0)" True
  for A and N :: "'n net_api" and query_a and T and p T0
  by unfold_locales

text \<open>Is a stream protected by TLS?\<close>

primrec is_tls :: "('t, 'n) maybe_https_stream \<Rightarrow> bool" where
  "is_tls (Http t) = False"
| "is_tls (Https n) = True"

lemma https_run_tls:
  assumes "connect_run (https_api A T K) self dst es w = Ret (Ok (Ready (stream, connected)), s')"
  shows "is_tls stream \<longleftrightarrow> dst_scheme A dst = lit ''https''"
  using https_run_protects[of A T K self dst es w stream connected "fst s'" "snd s'"] assms by (cases stream) auto

section \<open>Sample exchanges\<close>

text \<open>A concrete exchange: the answer arrives in three pieces.\<close>

definition sample_fields :: "(bytes \<times> bytes) list" where
  "sample_fields = [(lit ''Server'', lit ''s''), (lit ''Content-Length'', lit ''3'')]"

definition sample_response_head :: bytes where
  "sample_response_head = render_head (lit ''1.1'') 200 (lit ''OK'') sample_fields"

definition sample_exchange :: conn where
  "sample_exchange =
     \<lparr>arrivals = [Ok (take 20 sample_response_head), Ok (drop 20 sample_response_head @ lit ''he''),
        Ok (lit ''y''), Ok []], answers = [Ok (), Ok ()], sent = []\<rparr>"

definition sample_request :: "(rstr, unit, sample_uri, bytes io_result list) request" where
  "sample_request =
     \<lparr>rq_method = lit ''GET'', rq_version = (), rq_uri = dst_uri (sample_dst (lit ''http'') (lit ''a.b'') None),
      rq_headers = [(lit ''Accept'', lit ''text'')], rq_body = Some [Ok (lit ''q'')]\<rparr>"

lemma sample_head_facts:
  "wf_status (lit ''1.1'') 200 (lit ''OK'')" "list_all wf_field sample_fields"
  "length sample_response_head = 49" "take 20 sample_response_head \<noteq> []"
  by code_simp+

lemma sample_until_eof: "until_eof (arrivals sample_exchange) = Some (sample_response_head @ lit ''hey'')"
proof -
  have "drop 20 sample_response_head @ lit ''he'' \<noteq> []" and "lit ''y'' \<noteq> []" by (simp_all add: lit_def)
  then show ?thesis
    using sample_head_facts(4) by (simp add: sample_exchange_def until_eof_Cons lit_def)
qed

lemma sample_content_length: "find_content_length (stored_fields id sample_fields) = Some 3"
proof -
  have f: "stored_fields id sample_fields = [(lit ''server'', lit ''s''), (lit ''content-length'', show_nat 3)]"
    by code_simp
  have "parse_usize (show_nat 3) = Some 3" by (rule parse_usize_show) (simp add: usize_size_def)
  then show ?thesis unfolding f by (simp add: lit_def)
qed

lemma sample_peer_serves: "peer_serves 1 (sample_response_head @ lit ''hey'') sample_exchange"
proof -
  have "arrival_bytes (arrivals sample_exchange) = 52"
    using sample_head_facts(3) by (simp add: sample_exchange_def)
  then show ?thesis
    using sample_until_eof by (simp add: peer_serves_def sample_exchange_def usize_size_def)
qed

definition sample_stack_net :: "nat io_poll list net_api" where
  "sample_stack_net = sample_net\<lparr>connect_poll := (\<lambda>f w. case w of
      [] \<Rightarrow> (Err (IoError Other ''gone''), []) | x # xs \<Rightarrow> (x, xs))\<rparr>"

definition sample_stack_tls :: "(unit, nat, nat, nat, nat io_poll list \<times> ares_world) tls_api" where
  "sample_stack_tls = \<lparr>tls_start = (\<lambda>k host t w. (Err (HsWouldBlock t), w)), tls_resume = (\<lambda>m w. (Ok m, w))\<rparr>"

abbreviation sample_stack ::
    "((unit http_connector, unit) https_connector, sample_uri,
      ((unit, cares_future) http_connecting, unit, nat, nat, http_info list) https_connecting,
      http_info list http_env, nat io_poll list \<times> ares_world, io_error,
      (nat, nat) maybe_https_stream \<times> http_info list) connect_api" where
  "sample_stack \<equiv> https_api sample_api sample_stack_tls (http_api sample_api (lift_net sample_stack_net) (ares_api (\<lambda>n. 0)))"

definition sample_client :: "(unit http_connector, unit) https_connector client" where
  "sample_client = client_builder_build client_builder (default_https ())"

lemma sample_ares_facts: "ares_inv sample_ares" "answers_from 0 sample_ares"
  by (simp_all add: ares_inv_def answers_from_def sample_ares_def resolver_cache_default_def)

lemma sample_stack_patient:
  "net_patient sample_stack_net length" "tls_patient sample_stack_tls (ares_patience length 0)"
  by (simp_all add: sample_stack_net_def sample_net_patient tls_patient_def sample_stack_tls_def)

text \<open>Does a run give a connection?\<close>

definition is_connected :: "('a io_poll \<times> 's) outcome \<Rightarrow> bool" where
  "is_connected r = (case r of Ret (Ok (Ready _), _) \<Rightarrow> True | _ \<Rightarrow> False)"

lemma is_connected_Err [simp]: "\<not> is_connected (Ret (Err e, s))"
  by (simp add: is_connected_def)

lemma sample_connects:
  "is_connected (connect_run sample_stack (cl_inner sample_client) \<lparr>dst_uri = rq_uri sample_request\<rparr>
     (concat (replicate 3 sample_polls)) ([Ok (Ready 5)], sample_ares))"
  by code_simp

section \<open>Properties\<close>

text \<open>
  (C18) A client whose connector is restricted to \<open>https\<close> sends nothing anywhere for any other
  scheme: the request returns the error of the connector, no connection exists, and the
  outside world is untouched, so that not even the name of the host was looked up.
\<close>

theorem https_only_request_refused:
  assumes "dst_scheme A \<lparr>dst_uri = rq_uri req\<rparr> \<noteq> lit ''https''" and "es \<noteq> []"
  shows "client_request oc A uni as_str from_u16 uninit (https_api A T K) wire
      (client_new (https_only True connector)) req es w =
    Ret (Err (IoError Other ''HTTPS scheme forced but can't be used''), None, w)"
proof -
  obtain e es' where "es = e # es'" using assms(2) by (cases es) auto
  with assms(1) show ?thesis
    by (simp add: client_request_def connect_run_def client_new_def https_only_def https_connect_cases
        https_poll_simps request_def)
qed

theorem https_only_request_refused_witness:
  "client_request True sample_api id id (Some :: u16 \<Rightarrow> u16 option) [] sample_stack
      (\<lambda>_. sample_exchange) (client_new (https_only True (default_https ()))) sample_request sample_polls
      ([], sample_ares) =
    Ret (Err (IoError Other ''HTTPS scheme forced but can't be used''), None, [], sample_ares)"
proof (rule https_only_request_refused)
  show "dst_scheme sample_api \<lparr>dst_uri = rq_uri sample_request\<rparr> \<noteq> lit ''https''"
    by (simp add: dst_scheme_def sample_request_def sample_api_def sample_dst_def lit_def)
qed (simp add: sample_polls_def)

text \<open>
  (C16) Everything that can make a request over the whole stack panic: with the TLS connector on the
  HTTP connector and the default resolver, if a request panics, then c-ares answered some query
  with an empty list of addresses, or such an answer or a poisoned mutex was already in the cache, or
  the parser of the response head panics on what a peer sent. Connecting does not panic for any
  other reason, in any number of polls; nor does the missing host that \<open>build_req\<close> would
  panic on (such a destination does not get past the connector), nor sending, nor the status code.
\<close>

theorem stack_request_panic_causes:
  assumes "is_panic (client_request oc A uni as_str from_u16 uninit
      (https_api A T (http_api A (lift_net N) (ares_api query_a))) wire self req es (net, aw))"
    and "\<And>n. 100 \<le> unat n \<Longrightarrow> unat n \<le> 599 \<Longrightarrow> from_u16 n \<noteq> None"
  shows "(\<exists>k q. ce_answer (aw_envs aw k) q = Ok (Ready [])) \<or>
    (\<exists>name t. rc_map (aw_cache aw) name = Some ([], t)) \<or> rc_poisoned (aw_cache aw) \<or>
    (\<exists>stream c. arrivals c = arrivals (wire stream) \<and> is_panic (read_head oc uni [] c))"
proof (rule ccontr)
  assume none: "\<not> ?thesis"
  then have "ares_inv aw" by (auto simp: ares_inv_def)
  then have "\<not> is_panic (client_request oc A uni as_str from_u16 uninit
      (https_api A T (http_api A (lift_net N) (ares_api query_a))) wire self req es (net, aw))"
    by (intro ares_client.client_request_safe[where ?from_u16.0=from_u16])
      (use assms(2) none in \<open>auto simp: https_connect_def Let_def\<close>)
  with assms(1) show False by contradiction
qed

text \<open>A c-ares that finds no address, and a peer that closes the connection.\<close>

definition sample_no_ares :: ares_world where
  "sample_no_ares = sample_ares\<lparr>aw_envs := (\<lambda>k. \<lparr>ce_now = k, ce_answer = (\<lambda>q. Ok (Ready []))\<rparr>)\<rparr>"

definition sample_reset :: conn where
  "sample_reset = \<lparr>arrivals = [Err (IoError Other ''reset'')], answers = [Ok (), Ok ()], sent = []\<rparr>"

lemma sample_reset_head: "arrivals c = arrivals sample_reset \<Longrightarrow> \<not> is_panic (read_head True id [] c)"
  by (subst read_head.simps) (simp add: sample_reset_def conn_read_def head_capacity_def)

lemma sample_no_ares_clean:
  "rc_map (aw_cache sample_no_ares) name \<noteq> Some ([], t)" "\<not> rc_poisoned (aw_cache sample_no_ares)"
  by (simp_all add: sample_no_ares_def sample_ares_def resolver_cache_default_def)

theorem stack_request_panic_causes_witness:
  "is_panic (client_request True sample_api id id (Some :: u16 \<Rightarrow> u16 option) [] sample_stack (\<lambda>_. sample_reset)
      sample_client sample_request sample_polls ([Ok (Ready 5)], sample_no_ares)) \<and>
   (\<exists>k q. ce_answer (aw_envs sample_no_ares k) q = Ok (Ready []))"
proof
  show panic: "is_panic (client_request True sample_api id id (Some :: u16 \<Rightarrow> u16 option) [] sample_stack
      (\<lambda>_. sample_reset) sample_client sample_request sample_polls ([Ok (Ready 5)], sample_no_ares))"
    by code_simp
  show "\<exists>k q. ce_answer (aw_envs sample_no_ares k) q = Ok (Ready [])"
    using stack_request_panic_causes[where ?from_u16.0="Some :: u16 \<Rightarrow> u16 option", OF panic]
      sample_no_ares_clean sample_reset_head by blast
qed

text \<open>
  (C1) The whole stack from end to end: with a patient network, a patient TLS library, a c-ares that
  answers from some tick on, never with an empty list, and enough polls, a request always comes to
  an answer. Either
  connecting failed, and then the request returns that error and nothing was sent; or the
  request ran on a TLS stream exactly when the scheme is \<open>https\<close>, the peer of that stream
  received exactly the reference head and the body, and the response carries the status, the
  headers and the complete body of the peer's answer. Only peers of streams of the right kind
  are assumed to answer.
\<close>

theorem stack_exchange_end_to_end:
  assumes "ares_inv aw" and "answers_from K aw" and "net_patient N p" and "tls_patient T (ares_patience p K)"
    and "ares_patience p K (net, aw) < length es"
    and "rq_body req = map_option (map Ok) vs"
    and "wf_status version code reason" and "list_all wf_field hs"
    and "length (render_head version code reason hs) \<le> head_capacity"
    and "from_u16 (of_nat code) = Some sc" and "length uninit = 4096"
    and "announced_enough (find_content_length (stored_fields uni hs)) data"
    and "\<And>stream. is_tls stream = (dst_scheme A \<lparr>dst_uri = rq_uri req\<rparr> = lit ''https'') \<Longrightarrow>
      peer_serves (length (body_pieces vs)) (render_head version code reason hs @ data) (wire stream)"
  shows "(\<exists>e s' w'.
      connect_run (https_api A T (http_api A (lift_net N) (ares_api query_a))) (cl_inner self)
        \<lparr>dst_uri = rq_uri req\<rparr> es (net, aw) = Ret (Err e, s', w') \<and>
      client_request oc A uni as_str from_u16 uninit
        (https_api A T (http_api A (lift_net N) (ares_api query_a))) wire self req es (net, aw) =
        Ret (Err e, None, w')) \<or>
    (\<exists>stream host resp c' w'.
      client_request oc A uni as_str from_u16 uninit
        (https_api A T (http_api A (lift_net N) (ares_api query_a))) wire self req es (net, aw) =
        Ret (Ok (Ready resp), Some c', w') \<and>
      is_tls stream = (dst_scheme A \<lparr>dst_uri = rq_uri req\<rparr> = lit ''https'') \<and>
      sent c' = request_head A uni (as_str (rq_method req)) host (rq_uri req) (rq_headers req) @
        concat (body_pieces vs) \<and>
      uri_host A (rq_uri req) = Some host \<and> response_status resp = sc \<and>
      (\<forall>name. header_map_get (response_headers resp) name = map_of (stored_fields uni hs) name) \<and>
      (\<forall>fuel. arrival_work (arrivals (wire stream)) + 2 < fuel \<longrightarrow>
        (\<exists>b'. read_body oc fuel (into_body resp) = Some (Ret (data, Eof, b')))))"
proof -
  have usable: "(ares_inv (snd (net, aw)) \<and> answers_from K (snd (net, aw)) \<and> net_patient N p) \<and>
      tls_patient T (ares_patience p K)" using assms(1-4) by simp
  have peer: "\<forall>stream k s'. connect_run (https_api A T (http_api A (lift_net N) (ares_api query_a))) (cl_inner self)
      \<lparr>dst_uri = rq_uri req\<rparr> es (net, aw) = Ret (Ok (Ready (stream, k)), s') \<longrightarrow>
      peer_serves (length (body_pieces vs)) (render_head version code reason hs @ data) (wire stream)"
    by (intro allI impI assms(13)) (rule https_run_tls)
  show ?thesis
  proof (cases rule: ares_exchange.client_exchange[where oc=oc and as_str=as_str
        and ?from_u16.0=from_u16 and uni=uni and wire=wire and w="(net, aw)", OF TrueI usable assms(5-12) peer,
        case_names failed answered])
    case (answered stream k s' w' host resp c')
    with https_run_tls[OF answered(1)] show ?thesis
      by (intro disjI2 exI[of _ stream] exI[of _ host] exI[of _ resp] exI[of _ c'] exI[of _ w'] conjI)
  qed blast+
qed

definition sample_stack_call ::
    "((u16, body) response io_poll \<times> conn option \<times> nat io_poll list \<times> ares_world) outcome" where
  "sample_stack_call =
     client_request True sample_api id id Some (replicate 4096 0) sample_stack (\<lambda>_. sample_exchange) sample_client
       sample_request (concat (replicate 3 sample_polls)) ([Ok (Ready 5)], sample_ares)"

theorem stack_exchange_end_to_end_witness:
  "\<exists>resp c' w' b'. sample_stack_call = Ret (Ok (Ready resp), Some c', w') \<and>
    response_status resp = 200 \<and> read_body True 99 (into_body resp) = Some (Ret (lit ''hey'', Eof, b'))"
proof -
  have b: "rq_body sample_request = map_option (map Ok) (Some [lit ''q''])"
    by (simp add: sample_request_def)
  have work: "arrival_work (arrivals sample_exchange) = 56"
    using sample_head_facts(3) by (simp add: sample_exchange_def)
  have cap: "length (render_head (lit ''1.1'') 200 (lit ''OK'') sample_fields) \<le> head_capacity"
    using sample_head_facts(3) by (simp add: head_capacity_def sample_response_head_def)
  have pat: "ares_patience length 0 ([Ok (Ready 5) :: nat io_poll], sample_ares) < length (concat (replicate 3 sample_polls))"
    by (simp add: ares_patience_def sample_polls_def eval_nat_numeral)
  have ann: "announced_enough (find_content_length (stored_fields id sample_fields)) (lit ''hey'')"
    by (simp add: sample_content_length announced_enough_def)
  have "peer_serves (length (body_pieces (Some [lit ''q''])))
      (render_head (lit ''1.1'') 200 (lit ''OK'') sample_fields @ lit ''hey'') sample_exchange"
    using sample_peer_serves by (simp add: body_pieces_def sample_response_head_def)
  then have
    "(\<exists>e s' w'. connect_run sample_stack (cl_inner sample_client) \<lparr>dst_uri = rq_uri sample_request\<rparr>
          (concat (replicate 3 sample_polls)) ([Ok (Ready 5)], sample_ares) = Ret (Err e, s', w') \<and>
        sample_stack_call = Ret (Err e, None, w')) \<or>
     (\<exists>stream host resp c' w'. sample_stack_call = Ret (Ok (Ready resp), Some c', w') \<and>
        is_tls (stream :: (nat, nat) maybe_https_stream) =
          (dst_scheme sample_api \<lparr>dst_uri = rq_uri sample_request\<rparr> = lit ''https'') \<and>
        sent c' = request_head sample_api id (id (rq_method sample_request)) host (rq_uri sample_request)
          (rq_headers sample_request) @ concat (body_pieces (Some [lit ''q''])) \<and>
        uri_host sample_api (rq_uri sample_request) = Some host \<and> response_status resp = 200 \<and>
        (\<forall>name. header_map_get (response_headers resp) name = map_of (stored_fields id sample_fields) name) \<and>
        (\<forall>fuel. arrival_work (arrivals sample_exchange) + 2 < fuel \<longrightarrow>
          (\<exists>b'. read_body True fuel (into_body resp) = Some (Ret (lit ''hey'', Eof, b')))))"
    unfolding sample_stack_call_def
    by (intro stack_exchange_end_to_end[OF sample_ares_facts sample_stack_patient pat b sample_head_facts(1,2) cap])
      (simp_all add: ann)
  then show ?thesis
  proof (elim disjE exE conjE)
    fix stream host resp c' w'
    assume r: "sample_stack_call = Ret (Ok (Ready resp), Some c', w')" "response_status resp = 200"
      and body: "\<forall>fuel. arrival_work (arrivals sample_exchange) + 2 < fuel \<longrightarrow>
        (\<exists>b'. read_body True fuel (into_body resp) = Some (Ret (lit ''hey'', Eof, b')))"
    from body work obtain b' where "read_body True 99 (into_body resp) = Some (Ret (lit ''hey'', Eof, b'))"
      by fastforce
    with r show ?thesis by blast
  qed (use sample_connects in simp)
qed

end
