(* ===== verification/Tunnel.thy ===== *)
theory Tunnel
  imports Http_Connector
begin

text \<open>
  The CONNECT tunnel through a proxy, \<open>src/src/proxy/tunnel.rs\<close>: the head that is sent, and the
  future that writes it and reads the answer of the proxy. The header map of the \<open>http\<close>
  crate is the record \<open>hdr_api\<close>, an argument.

  The stream is a script of what its environment answers: how many bytes each write accepts
  and what each read brings; a call without an answer is pending. The environment adds
  answers between polls.
\<close>

section \<open>Header maps of the http crate\<close>

record ('hm, 'hn, 'hv, 'cr) hdr_api =
  hdr_new :: 'hm
  hdr_insert :: "'hn \<Rightarrow> 'hv \<Rightarrow> 'hm \<Rightarrow> 'hm"
  hdr_iter :: "'hm \<Rightarrow> (rstr \<times> 'hv) list"
  value_to_str :: "'hv \<Rightarrow> rstr option"
  insert_authorization :: "'cr \<Rightarrow> 'hm \<Rightarrow> 'hm"
  insert_proxy_authorization :: "'cr \<Rightarrow> 'hm \<Rightarrow> 'hm"

section \<open>The stream below\<close>

record tunnel_stream =
  tn_accepts :: "nat io_result list"
  tn_arrivals :: "bytes io_result list"
  tn_sent :: bytes

definition stream_write_buf :: "bytes \<Rightarrow> tunnel_stream \<Rightarrow> nat io_poll \<times> tunnel_stream" where
  "stream_write_buf buf s =
     (if buf = [] then (Ok (Ready 0), s)
      else case tn_accepts s of
        [] \<Rightarrow> (Ok NotReady, s)
      | Err e # as \<Rightarrow> (Err e, s\<lparr>tn_accepts := as\<rparr>)
      | Ok k # as \<Rightarrow>
          (Ok (Ready (min k (length buf))), s\<lparr>tn_accepts := as, tn_sent := tn_sent s @ take k buf\<rparr>))"

definition stream_read_buf :: "tunnel_stream \<Rightarrow> bytes io_poll \<times> tunnel_stream" where
  "stream_read_buf s =
     (case tn_arrivals s of
        [] \<Rightarrow> (Ok NotReady, s)
      | Err e # as \<Rightarrow> (Err e, s\<lparr>tn_arrivals := as\<rparr>)
      | Ok bs # as \<Rightarrow> (Ok (Ready bs), s\<lparr>tn_arrivals := as\<rparr>))"

section \<open>The tunnel\<close>

record tunnel_connect =
  tc_buf :: bytes

datatype tunnel_state = Writing | Reading

text \<open>\<open>tu_buf\<close> and \<open>tu_pos\<close> are the vector and the position of the cursor.\<close>

record 'c tunnel =
  tu_buf :: bytes
  tu_pos :: nat
  tu_stream :: "tunnel_stream option"
  tu_connected :: "'c option"
  tu_state :: tunnel_state

definition with_stream :: "tunnel_connect \<Rightarrow> tunnel_stream \<Rightarrow> 'c \<Rightarrow> 'c tunnel" where
  "with_stream self stream connected =
     \<lparr>tu_buf = tc_buf self, tu_pos = 0, tu_stream = Some stream, tu_connected = Some connected,
      tu_state = Writing\<rparr>"

fun headers_display :: "('hv \<Rightarrow> rstr option) \<Rightarrow> (rstr \<times> 'hv) list \<Rightarrow> rstr option" where
  "headers_display to_str [] = Some []"
| "headers_display to_str ((key, val) # hs) =
     (case to_str val of
        None \<Rightarrow> None
      | Some value_str \<Rightarrow>
          map_option (\<lambda>rest. key @ lit '': '' @ value_str @ CRLF @ rest) (headers_display to_str hs))"

text \<open>\<open>format!\<close> panics when a \<open>Display\<close> implementation returns an error.\<close>

definition tunnel_new ::
    "('hm, 'hn, 'hv, 'cr) hdr_api \<Rightarrow> rstr \<Rightarrow> u16 \<Rightarrow> 'hm \<Rightarrow> tunnel_connect outcome" where
  "tunnel_new D host port headers =
     omap (\<lambda>display.
       \<lparr>tc_buf = lit ''CONNECT '' @ host @ lit '':'' @ show_nat (unat port) @ lit '' HTTP/1.1'' @ CRLF @
          lit ''Host: '' @ host @ lit '':'' @ show_nat (unat port) @ CRLF @ display @ CRLF\<rparr>)
       (unwrap (PanicMsg ''a Display implementation returned an error unexpectedly'')
         (headers_display (value_to_str D) (hdr_iter D headers)))"

definition starts_with :: "bytes \<Rightarrow> bytes \<Rightarrow> bool" where
  "starts_with r p \<longleftrightarrow> take (length p) r = p"

definition ends_with :: "bytes \<Rightarrow> bytes \<Rightarrow> bool" where
  "ends_with r p \<longleftrightarrow> length p \<le> length r \<and> drop (length r - length p) r = p"

definition io_err :: "string \<Rightarrow> io_error" where
  "io_err e = IoError Other e"

function tunnel_loop ::
    "'c connected_api \<Rightarrow> bytes \<Rightarrow> nat \<Rightarrow> tunnel_stream \<Rightarrow> 'c \<Rightarrow> tunnel_state \<Rightarrow>
     (tunnel_stream \<times> 'c) io_poll \<times> 'c tunnel" where
  "tunnel_loop C buf pos s c Writing =
     (let here = (\<lambda>pos s. \<lparr>tu_buf = buf, tu_pos = pos, tu_stream = Some s, tu_connected = Some c,
                           tu_state = Writing\<rparr>) in
      case stream_write_buf (drop pos buf) s of
        (Err e, s') \<Rightarrow> (Err e, here pos s')
      | (Ok NotReady, s') \<Rightarrow> (Ok NotReady, here pos s')
      | (Ok (Ready n), s') \<Rightarrow>
          (if length buf \<le> pos + n then tunnel_loop C [] (pos + n) s' c Reading
           else if n = 0 then
             (Err (io_err ''unexpected EOF while tunnel writing''), here (pos + n) s')
           else tunnel_loop C buf (pos + n) s' c Writing))"
| "tunnel_loop C buf pos s c Reading =
     (let here = (\<lambda>buf s. \<lparr>tu_buf = buf, tu_pos = pos, tu_stream = Some s, tu_connected = Some c,
                           tu_state = Reading\<rparr>) in
      case stream_read_buf s of
        (Err e, s') \<Rightarrow> (Err e, here buf s')
      | (Ok NotReady, s') \<Rightarrow> (Ok NotReady, here buf s')
      | (Ok (Ready bs), s') \<Rightarrow>
          (let read = buf @ bs in
           if length bs = 0 then
             (Err (io_err ''unexpected EOF while tunnel reading''), here read s')
           else if 12 < length read then
             (if starts_with read (lit ''HTTP/1.1 200'') \<or> starts_with read (lit ''HTTP/1.0 200'') then
                (if ends_with read (CRLF @ CRLF) then
                   (Ok (Ready (s', connected_proxy C True c)),
                    (here read s')\<lparr>tu_stream := None, tu_connected := None\<rparr>)
                 else tunnel_loop C read pos s' c Reading)
              else (Err (io_err ''unsuccessful tunnel''), here read s'))
           else tunnel_loop C read pos s' c Reading))"
  by pat_completeness auto
termination
  by (relation "measure (\<lambda>(C, buf, pos, s, c, st).
      length (tn_accepts s) + length (tn_arrivals s) + (if st = Writing then 1 else 0))")
    (auto simp: stream_write_buf_def stream_read_buf_def split: if_splits list.splits sum.splits)

declare tunnel_loop.simps [simp del]

definition tunnel_poll ::
    "'c connected_api \<Rightarrow> 'c tunnel \<Rightarrow> ((tunnel_stream \<times> 'c) io_poll \<times> 'c tunnel) outcome" where
  "tunnel_poll C self =
     (case (tu_stream self, tu_connected self) of
        (Some s, Some c) \<Rightarrow> Ret (tunnel_loop C (tu_buf self) (tu_pos self) s c (tu_state self))
      | _ \<Rightarrow> Panic (PanicMsg ''must not poll after future is complete''))"

section \<open>The tunnel as a future\<close>

text \<open>Between polls the environment adds answers to the script of the stream.\<close>

type_synonym tunnel_env = "nat io_result list \<times> bytes io_result list"

definition add_answers :: "tunnel_env \<Rightarrow> tunnel_stream \<Rightarrow> tunnel_stream" where
  "add_answers e s = s\<lparr>tn_accepts := tn_accepts s @ fst e, tn_arrivals := tn_arrivals s @ snd e\<rparr>"

definition feed :: "tunnel_env \<Rightarrow> 'c tunnel \<Rightarrow> 'c tunnel" where
  "feed e self = self\<lparr>tu_stream := map_option (add_answers e) (tu_stream self)\<rparr>"

definition tunnel_step ::
    "'c connected_api \<Rightarrow> tunnel_env \<Rightarrow> 'c tunnel \<Rightarrow>
     ((tunnel_stream \<times> 'c) io_poll \<times> 'c tunnel) outcome" where
  "tunnel_step C e self = tunnel_poll C (feed e self)"

definition tunnel_live :: "'c tunnel \<Rightarrow> bool" where
  "tunnel_live self \<longleftrightarrow> tu_stream self \<noteq> None \<and> tu_connected self \<noteq> None"

lemma tunnel_loop_live:
  "tunnel_live (snd (tunnel_loop C buf pos s c st)) \<longleftrightarrow>
   (\<forall>x. fst (tunnel_loop C buf pos s c st) \<noteq> Ok (Ready x))"
proof (induction C buf pos s c st rule: tunnel_loop.induct)
  case (1 C buf pos s c)
  then show ?case
    by (subst (1 2) tunnel_loop.simps)
      (auto simp: Let_def tunnel_live_def split: prod.splits sum.splits async.splits)
next
  case (2 C buf pos s c)
  then show ?case
    by (subst (1 2) tunnel_loop.simps)
      (auto simp: Let_def tunnel_live_def split: prod.splits sum.splits async.splits)
qed

lemma tunnel_step_live:
  assumes "tunnel_live self" and "tunnel_step C e self = Ret (r, self')"
  shows "tunnel_live self' \<longleftrightarrow> (\<forall>x. r \<noteq> Ok (Ready x))"
proof -
  obtain s c where "tunnel_step C e self =
      Ret (tunnel_loop C (tu_buf self) (tu_pos self) s c (tu_state self))"
    using assms(1) by (auto simp: tunnel_live_def tunnel_step_def tunnel_poll_def feed_def)
  with assms(2) show ?thesis
    using tunnel_loop_live[of C "tu_buf self" "tu_pos self" s c "tu_state self"] by simp
qed

lemma tunnel_step_panic_iff: "is_panic (tunnel_step C e self) \<longleftrightarrow> \<not> tunnel_live self"
  by (auto simp: tunnel_step_def tunnel_poll_def tunnel_live_def feed_def split: option.splits)

text \<open>
  The invariant: while writing, the buffer is the head and what was sent is the part before the
  cursor; once reading, the whole head was sent. \<open>pre\<close> is what the stream had sent before.
\<close>

definition tunnel_inv :: "bytes \<Rightarrow> bytes \<Rightarrow> 'c tunnel \<Rightarrow> bool" where
  "tunnel_inv head pre self \<longleftrightarrow>
     (case tu_stream self of
        None \<Rightarrow> True
      | Some s \<Rightarrow>
          (case tu_state self of
             Writing \<Rightarrow> tu_buf self = head \<and> tu_pos self \<le> length head \<and>
               tn_sent s = pre @ take (tu_pos self) head
           | Reading \<Rightarrow> tn_sent s = pre @ head))"

text \<open>An answer that opens the tunnel.\<close>

definition granted :: "bytes \<Rightarrow> bool" where
  "granted r \<longleftrightarrow> 12 < length r \<and>
     (starts_with r (lit ''HTTP/1.1 200'') \<or> starts_with r (lit ''HTTP/1.0 200'')) \<and>
     ends_with r (CRLF @ CRLF)"

definition loop_ok :: "bytes \<Rightarrow> bytes \<Rightarrow> (tunnel_stream \<times> 'c) io_poll \<times> 'c tunnel \<Rightarrow> bool" where
  "loop_ok head pre res \<longleftrightarrow> tunnel_inv head pre (snd res) \<and>
     (case fst res of
        Ok (Ready (s, c)) \<Rightarrow> tn_sent s = pre @ head \<and> granted (tu_buf (snd res))
      | _ \<Rightarrow> True)"

lemma write_buf_cases:
  obtains (pending) "stream_write_buf buf s = (Ok NotReady, s)"
  | (failed) e as where "stream_write_buf buf s = (Err e, s\<lparr>tn_accepts := as\<rparr>)"
  | (written) n as where "stream_write_buf buf s =
      (Ok (Ready n), s\<lparr>tn_accepts := as, tn_sent := tn_sent s @ take n buf\<rparr>)" and "n \<le> length buf"
proof (cases "buf = []")
  case True
  then show thesis
    using written[of 0 "tn_accepts s"] by (simp add: stream_write_buf_def)
next
  case False
  show thesis
  proof (cases "tn_accepts s")
    case Nil
    with False pending show ?thesis by (simp add: stream_write_buf_def)
  next
    case (Cons x as)
    show ?thesis
    proof (cases x)
      case (Inl e)
      with False Cons failed show ?thesis by (simp add: stream_write_buf_def)
    next
      case (Inr k)
      have "take (min k (length buf)) buf = take k buf" by (simp add: min_def)
      with False Cons Inr written[of "min k (length buf)" as] show ?thesis
        by (simp add: stream_write_buf_def)
    qed
  qed
qed

lemma read_buf_cases:
  obtains (pending) "stream_read_buf s = (Ok NotReady, s)"
  | (failed) e as where "stream_read_buf s = (Err e, s\<lparr>tn_arrivals := as\<rparr>)"
  | (arrived) bs as where "stream_read_buf s = (Ok (Ready bs), s\<lparr>tn_arrivals := as\<rparr>)"
  by (cases "tn_arrivals s" rule: list.exhaust[case_product sum.exhaust[of "hd (tn_arrivals s)"]])
    (auto simp: stream_read_buf_def)

lemma reading_ok:
  "tn_sent s = pre @ head \<Longrightarrow> st = Reading \<Longrightarrow> loop_ok head pre (tunnel_loop C buf pos s c st)"
proof (induction C buf pos s c st rule: tunnel_loop.induct)
  case (2 C buf pos s c)
  show ?case
  proof (cases rule: read_buf_cases[of s])
    case (arrived bs as)
    with "2.prems" "2.IH"[OF refl arrived[symmetric] refl refl refl] show ?thesis
      by (subst tunnel_loop.simps)
        (auto simp: loop_ok_def tunnel_inv_def granted_def Let_def)
  qed (use "2.prems" in \<open>subst tunnel_loop.simps, simp add: loop_ok_def tunnel_inv_def\<close>)+
qed simp

lemma writing_ok:
  "tn_sent s = pre @ take pos head \<Longrightarrow> pos \<le> length head \<Longrightarrow> buf = head \<Longrightarrow> st = Writing \<Longrightarrow>
   loop_ok head pre (tunnel_loop C buf pos s c st)"
proof (induction C buf pos s c st rule: tunnel_loop.induct)
  case (1 C buf pos s c)
  show ?case
  proof (cases rule: write_buf_cases[of "drop pos buf" s])
    case (written n as)
    let ?s = "s\<lparr>tn_accepts := as, tn_sent := tn_sent s @ take n (drop pos buf)\<rparr>"
    have sent: "tn_sent ?s = pre @ take (pos + n) head"
      using "1.prems" by (simp add: take_add)
    show ?thesis
    proof (cases "length buf \<le> pos + n")
      case True
      with sent "1.prems" have "tn_sent ?s = pre @ head" by simp
      then have "loop_ok head pre (tunnel_loop C [] (pos + n) ?s c Reading)" by (rule reading_ok) simp
      with True written(1) show ?thesis by (subst tunnel_loop.simps) simp
    next
      case False
      with "1.IH"(2)[OF refl written(1)[symmetric] refl refl] sent "1.prems" written(1) show ?thesis
        by (subst tunnel_loop.simps) (auto simp: loop_ok_def tunnel_inv_def)
    qed
  qed (use "1.prems" in \<open>subst tunnel_loop.simps, simp add: loop_ok_def tunnel_inv_def\<close>)+
qed simp

lemma tunnel_step_ok:
  assumes "tunnel_inv head pre self" and "tunnel_live self" and "tunnel_step C e self = Ret res"
  shows "loop_ok head pre res"
proof -
  obtain s c where sc: "tu_stream (feed e self) = Some s" "tu_connected (feed e self) = Some c"
    and res: "res = tunnel_loop C (tu_buf self) (tu_pos self) s c (tu_state self)"
    using assms(2,3) by (auto simp: tunnel_live_def tunnel_step_def tunnel_poll_def feed_def)
  have "tunnel_inv head pre (feed e self)" using assms(1)
    by (auto simp: tunnel_inv_def feed_def add_answers_def split: option.splits tunnel_state.splits)
  with sc have "case tu_state self of
      Writing \<Rightarrow> tu_buf self = head \<and> tu_pos self \<le> length head \<and> tn_sent s = pre @ take (tu_pos self) head
    | Reading \<Rightarrow> tn_sent s = pre @ head"
    by (simp add: tunnel_inv_def feed_def split: tunnel_state.splits)
  then show ?thesis
    unfolding res by (cases "tu_state self") (auto intro: reading_ok writing_ok)
qed

interpretation tun: live_future "tunnel_step C" "tunnel_inv head pre" tunnel_live for C head pre
proof
  show "tunnel_inv head pre s'"
    if "tunnel_inv head pre s" "tunnel_live s" "tunnel_step C e s = Ret (r, s')" for s s' e r
    using tunnel_step_ok[OF that] by (simp add: loop_ok_def)
qed (auto simp: tunnel_step_panic_iff tunnel_step_live)

lemma with_stream_inv:
  "tunnel_inv (tc_buf t) (tn_sent s) (with_stream t s c) \<and> tunnel_live (with_stream t s c)"
  by (simp add: tunnel_inv_def tunnel_live_def with_stream_def)

section \<open>Reading the answer\<close>

text \<open>What the bytes read so far decide: nothing yet, success or refusal.\<close>

definition verdict :: "bytes \<Rightarrow> bool option" where
  "verdict r =
     (if length r \<le> 12 then None
      else if starts_with r (lit ''HTTP/1.1 200'') \<or> starts_with r (lit ''HTTP/1.0 200'') then
        (if ends_with r (CRLF @ CRLF) then Some True else None)
      else Some False)"

lemma reading_arrived:
  assumes "stream_read_buf s = (Ok (Ready bs), s')"
  shows "tunnel_loop C buf pos s c Reading =
    (let here = \<lparr>tu_buf = buf @ bs, tu_pos = pos, tu_stream = Some s', tu_connected = Some c, tu_state = Reading\<rparr> in
     if bs = [] then (Err (io_err ''unexpected EOF while tunnel reading''), here)
     else case verdict (buf @ bs) of
       None \<Rightarrow> tunnel_loop C (buf @ bs) pos s' c Reading
     | Some True \<Rightarrow> (Ok (Ready (s', connected_proxy C True c)), here\<lparr>tu_stream := None, tu_connected := None\<rparr>)
     | Some False \<Rightarrow> (Err (io_err ''unsuccessful tunnel''), here))"
  using assms
  by (subst tunnel_loop.simps) (simp add: verdict_def Let_def)

lemma reading_step:
  assumes "tn_arrivals s = Ok bs # as" and "bs \<noteq> []"
  shows "fst (tunnel_loop C buf pos s c Reading) =
    (case verdict (buf @ bs) of
       None \<Rightarrow> fst (tunnel_loop C (buf @ bs) pos (s\<lparr>tn_arrivals := as\<rparr>) c Reading)
     | Some True \<Rightarrow> Ok (Ready (s\<lparr>tn_arrivals := as\<rparr>, connected_proxy C True c))
     | Some False \<Rightarrow> Err (io_err ''unsuccessful tunnel''))"
  using assms by (subst reading_arrived) (auto simp: stream_read_buf_def split: option.split bool.split)

text \<open>The answer may arrive in any pieces, as long as no earlier piece boundary decides.\<close>

lemma reading_chunks:
  assumes "tn_arrivals s = map Ok (chunks @ [lst]) @ as" and "[] \<notin> set (chunks @ [lst])"
    and "\<And>k. k \<le> length chunks \<Longrightarrow> 0 < k \<Longrightarrow> verdict (buf @ concat (take k chunks)) = None"
    and "verdict (buf @ concat chunks @ lst) = Some v"
  shows "fst (tunnel_loop C buf pos s c Reading) =
    (if v then Ok (Ready (s\<lparr>tn_arrivals := as\<rparr>, connected_proxy C True c))
     else Err (io_err ''unsuccessful tunnel''))"
  using assms
proof (induction chunks arbitrary: buf s)
  case Nil
  then show ?case
    using reading_step[of s lst as C buf pos c] by simp
next
  case (Cons ch chunks)
  let ?s = "s\<lparr>tn_arrivals := map Ok (chunks @ [lst]) @ as\<rparr>"
  have none: "verdict (buf @ ch) = None" using Cons.prems(3)[of 1] by simp
  have "fst (tunnel_loop C (buf @ ch) pos ?s c Reading) =
    (if v then Ok (Ready (?s\<lparr>tn_arrivals := as\<rparr>, connected_proxy C True c))
     else Err (io_err ''unsuccessful tunnel''))"
  proof (rule Cons.IH)
    show "verdict ((buf @ ch) @ concat (take k chunks)) = None" if "k \<le> length chunks" "0 < k" for k
      using Cons.prems(3)[of "Suc k"] that by simp
  qed (use Cons.prems in auto)
  then show ?case
    using reading_step[of s ch "map Ok (chunks @ [lst]) @ as" C buf pos c] Cons.prems none
    by (cases v) auto
qed

section \<open>Writing the head\<close>

lemma writing_pieces:
  assumes "tn_accepts s = map Ok ks" and "0 \<notin> set ks" and "length buf \<le> pos + sum_list ks"
    and "pos < length buf"
  shows "\<exists>as. fst (tunnel_loop C buf pos s c Writing) =
    fst (tunnel_loop C [] (length buf) (s\<lparr>tn_accepts := as, tn_sent := tn_sent s @ drop pos buf\<rparr>) c Reading)"
  using assms
proof (induction ks arbitrary: pos s)
  case (Cons k ks)
  let ?n = "min k (length buf - pos)"
  let ?s = "s\<lparr>tn_accepts := map Ok ks, tn_sent := tn_sent s @ take k (drop pos buf)\<rparr>"
  have wr: "stream_write_buf (drop pos buf) s = (Ok (Ready ?n), ?s)"
    using Cons.prems by (simp add: stream_write_buf_def)
  show ?case
  proof (cases "length buf \<le> pos + ?n")
    case True
    then have "k \<ge> length buf - pos" and "pos + ?n = length buf" using Cons.prems(4) by auto
    with True wr show ?thesis
      by (subst tunnel_loop.simps(1)) (auto intro!: exI[of _ "map Ok ks"])
  next
    case False
    then have n: "?n = k" "0 < k" using Cons.prems by auto
    then have "\<exists>as. fst (tunnel_loop C buf (pos + k) ?s c Writing) =
      fst (tunnel_loop C [] (length buf)
        (?s\<lparr>tn_accepts := as, tn_sent := tn_sent ?s @ drop (pos + k) buf\<rparr>) c Reading)"
      using Cons.prems False by (intro Cons.IH) auto
    moreover have "take k (drop pos buf) @ drop (pos + k) buf = drop pos buf"
      by (metis add.commute append_take_drop_id drop_drop)
    moreover have "fst (tunnel_loop C buf pos s c Writing) = fst (tunnel_loop C buf (pos + k) ?s c Writing)"
      using False n wr by (subst tunnel_loop.simps(1)) simp
    ultimately show ?thesis by auto
  qed
qed simp

section \<open>Polls and pieces\<close>

text \<open>
  How the answers of the environment are spread over polls does not matter: a loop that became
  pending goes on, with more answers, as if they had been there from the start.
\<close>

lemma tn_sent_add_answers [simp]: "tn_sent (add_answers e s) = tn_sent s"
  by (simp add: add_answers_def)

lemma add_answers_twice: "add_answers e' (add_answers e s) = add_answers (fst e @ fst e', snd e @ snd e') s"
  by (simp add: add_answers_def)

lemma write_extend:
  "stream_write_buf b s = (r, s') \<Longrightarrow> r \<noteq> Ok NotReady \<Longrightarrow>
   stream_write_buf b (add_answers e s) = (r, add_answers e s')"
  by (auto simp: stream_write_buf_def add_answers_def split: if_splits list.splits sum.splits)

lemma read_extend:
  "stream_read_buf s = (r, s') \<Longrightarrow> r \<noteq> Ok NotReady \<Longrightarrow>
   stream_read_buf (add_answers e s) = (r, add_answers e s')"
  by (auto simp: stream_read_buf_def add_answers_def split: list.splits sum.splits)

text \<open>What a caller sees of an answer, apart from what the environment has not answered yet.\<close>

definition tunnel_view ::
    "(tunnel_stream \<times> 'c) io_poll \<times> 'c tunnel \<Rightarrow> (bytes \<times> 'c) io_poll \<times> bytes \<times> nat \<times> tunnel_state" where
  "tunnel_view res =
     (map_answer (\<lambda>(s, c). (tn_sent s, c)) id (fst res), tu_buf (snd res), tu_pos (snd res), tu_state (snd res))"

definition goes_on ::
    "'c connected_api \<Rightarrow> tunnel_env \<Rightarrow> 'c \<Rightarrow> (tunnel_stream \<times> 'c) io_poll \<times> 'c tunnel \<Rightarrow>
     (tunnel_stream \<times> 'c) io_poll \<times> 'c tunnel \<Rightarrow> bool" where
  "goes_on C e c res res' \<longleftrightarrow>
     (if fst res = Ok NotReady then
        (\<exists>s. tu_stream (snd res) = Some s \<and> tu_connected (snd res) = Some c \<and>
           res' = tunnel_loop C (tu_buf (snd res)) (tu_pos (snd res)) (add_answers e s) c (tu_state (snd res)))
      else tunnel_view res' = tunnel_view res)"

lemma reading_goes_on:
  "st = Reading \<Longrightarrow>
   goes_on C e c (tunnel_loop C buf pos s c st) (tunnel_loop C buf pos (add_answers e s) c st)"
proof (induction C buf pos s c st rule: tunnel_loop.induct)
  case (2 C buf pos s c)
  show ?case
  proof (cases rule: read_buf_cases[of s])
    case pending
    then have "tunnel_loop C buf pos s c Reading = (Ok NotReady,
        \<lparr>tu_buf = buf, tu_pos = pos, tu_stream = Some s, tu_connected = Some c, tu_state = Reading\<rparr>)"
      by (subst tunnel_loop.simps) simp
    then show ?thesis by (simp add: goes_on_def)
  next
    case (failed x as)
    with read_extend[OF failed, of e] show ?thesis
      by (subst (1 2) tunnel_loop.simps) (simp add: goes_on_def tunnel_view_def)
  next
    case (arrived bs as)
    let ?s = "s\<lparr>tn_arrivals := as\<rparr>"
    have ext: "stream_read_buf (add_answers e s) = (Ok (Ready bs), add_answers e ?s)"
      using read_extend[OF arrived] by simp
    note loops = reading_arrived[OF arrived, of C buf pos c] reading_arrived[OF ext, of C buf pos c]
    show ?thesis
    proof (cases "bs \<noteq> [] \<and> verdict (buf @ bs) = None")
      case True
      then have "goes_on C e c (tunnel_loop C (buf @ bs) pos ?s c Reading)
          (tunnel_loop C (buf @ bs) pos (add_answers e ?s) c Reading)"
        using "2.IH"[OF refl arrived[symmetric] refl refl refl]
        by (auto simp: verdict_def split: if_splits)
      with True show ?thesis by (simp add: loops)
    next
      case False
      then show ?thesis by (auto simp: loops goes_on_def tunnel_view_def Let_def split: option.split bool.split)
    qed
  qed
qed simp

lemma loop_goes_on: "goes_on C e c (tunnel_loop C buf pos s c st) (tunnel_loop C buf pos (add_answers e s) c st)"
proof (induction C buf pos s c st rule: tunnel_loop.induct)
  case (1 C buf pos s c)
  show ?case
  proof (cases rule: write_buf_cases[of "drop pos buf" s])
    case pending
    then have "tunnel_loop C buf pos s c Writing = (Ok NotReady,
        \<lparr>tu_buf = buf, tu_pos = pos, tu_stream = Some s, tu_connected = Some c, tu_state = Writing\<rparr>)"
      by (subst tunnel_loop.simps) simp
    then show ?thesis by (simp add: goes_on_def)
  next
    case (failed x as)
    with write_extend[OF failed, of e] show ?thesis
      by (subst (1 2) tunnel_loop.simps) (simp add: goes_on_def tunnel_view_def)
  next
    case (written n as)
    let ?s = "s\<lparr>tn_accepts := as, tn_sent := tn_sent s @ take n (drop pos buf)\<rparr>"
    have ext: "stream_write_buf (drop pos buf) (add_answers e s) = (Ok (Ready n), add_answers e ?s)"
      using write_extend[OF written(1)] by simp
    show ?thesis
    proof (cases "length buf \<le> pos + n")
      case True
      then have "tunnel_loop C buf pos s c Writing = tunnel_loop C [] (pos + n) ?s c Reading"
        "tunnel_loop C buf pos (add_answers e s) c Writing = tunnel_loop C [] (pos + n) (add_answers e ?s) c Reading"
        using written(1) ext by (subst tunnel_loop.simps(1), simp)+
      with reading_goes_on[OF refl, of C e c "[]" "pos + n" ?s] show ?thesis by (simp only:)
    next
      case False
      show ?thesis
      proof (cases "n = 0")
        case True
        with False written(1) ext show ?thesis
          by (subst (1 2) tunnel_loop.simps(1)) (simp add: goes_on_def tunnel_view_def)
      next
        case more: False
        with False have "tunnel_loop C buf pos s c Writing = tunnel_loop C buf (pos + n) ?s c Writing"
          "tunnel_loop C buf pos (add_answers e s) c Writing = tunnel_loop C buf (pos + n) (add_answers e ?s) c Writing"
          using written(1) ext by (subst tunnel_loop.simps(1), simp)+
        with "1.IH"(2)[OF refl written(1)[symmetric] refl refl False more] show ?thesis by (simp only:)
      qed
    qed
  qed
next
  case (2 C buf pos s c)
  show ?case by (rule reading_goes_on) simp
qed

lemma tunnel_run_once:
  "run_polls (tunnel_step C) [e] self = tunnel_step C e self"
  by (cases "tunnel_step C e self") auto

lemma tunnel_step_Some:
  assumes "tunnel_live self"
  obtains s c where "tu_stream self = Some s" "tu_connected self = Some c"
    "\<And>e. tunnel_step C e self = Ret (tunnel_loop C (tu_buf self) (tu_pos self) (add_answers e s) c (tu_state self))"
  using assms by (auto simp: tunnel_live_def tunnel_step_def tunnel_poll_def feed_def)

text \<open>All answers in one poll, or spread over several.\<close>

lemma tunnel_polls_merge:
  assumes "es \<noteq> []"
  shows "omap tunnel_view (run_polls (tunnel_step C) es self) =
    omap tunnel_view (tunnel_step C (concat (map fst es), concat (map snd es)) self)"
  using assms
proof (induction es arbitrary: self)
  case (Cons e es)
  show ?case
  proof (cases "es = [] \<or> \<not> tunnel_live self")
    case True
    then show ?thesis
    proof
      assume "\<not> tunnel_live self"
      then have "tunnel_step C e' self = Panic (PanicMsg ''must not poll after future is complete'')" for e'
        by (auto simp: tunnel_step_def tunnel_poll_def tunnel_live_def feed_def split: option.splits)
      then show ?thesis by simp
    qed (simp add: tunnel_run_once del: run_polls.simps)
  next
    case False
    then obtain s c where step: "\<And>e. tunnel_step C e self =
        Ret (tunnel_loop C (tu_buf self) (tu_pos self) (add_answers e s) c (tu_state self))"
      using tunnel_step_Some[of self C] by metis
    define rest where "rest = (concat (map fst es), concat (map snd es))"
    obtain r t where loop: "tunnel_loop C (tu_buf self) (tu_pos self) (add_answers e s) c (tu_state self) = (r, t)"
      by fastforce
    have on: "goes_on C rest c (r, t)
        (tunnel_loop C (tu_buf self) (tu_pos self) (add_answers (fst e @ fst rest, snd e @ snd rest) s) c (tu_state self))"
      using loop_goes_on[of C rest c "tu_buf self" "tu_pos self" "add_answers e s" "tu_state self"]
      by (simp add: loop add_answers_twice)
    show ?thesis
    proof (cases "r = Ok NotReady")
      case True
      with on obtain s' where s': "tu_stream t = Some s'" "tu_connected t = Some c"
        "tunnel_loop C (tu_buf self) (tu_pos self) (add_answers (fst e @ fst rest, snd e @ snd rest) s) c (tu_state self) =
         tunnel_loop C (tu_buf t) (tu_pos t) (add_answers rest s') c (tu_state t)"
        by (auto simp: goes_on_def)
      then have "tunnel_step C rest t = tunnel_step C (fst e @ fst rest, snd e @ snd rest) self"
        by (simp add: step) (simp add: tunnel_step_def tunnel_poll_def feed_def)
      with Cons.IH[of t] False True step[of e] loop show ?thesis by (simp add: rest_def)
    next
      case ready: False
      with on step[of e] step[of "(fst e @ fst rest, snd e @ snd rest)"] loop show ?thesis
        by (simp add: goes_on_def rest_def)
    qed
  qed
qed simp

text \<open>
  One poll is enough when the environment is ready: the head is accepted in any non-empty
  pieces, and the answer arrives in any pieces, of which only the last completes a decision.
\<close>

lemma tunnel_poll_decides:
  assumes "tc_buf t \<noteq> []"
    and "tn_accepts s = map Ok ks" and "0 \<notin> set ks" and "length (tc_buf t) \<le> sum_list ks"
    and "tn_arrivals s = map Ok (chunks @ [lst])" and "[] \<notin> set (chunks @ [lst])"
    and "\<And>k. k \<le> length chunks \<Longrightarrow> verdict (concat (take k chunks)) = None"
    and "verdict (concat chunks @ lst) = Some v"
  shows "\<exists>s' self'. tn_sent s' = tn_sent s @ tc_buf t \<and>
    tunnel_poll C (with_stream t s c) =
      Ret (if v then Ok (Ready (s', connected_proxy C True c))
           else Err (io_err ''unsuccessful tunnel''), self')"
proof -
  obtain as where w: "fst (tunnel_loop C (tc_buf t) 0 s c Writing) =
      fst (tunnel_loop C [] (length (tc_buf t))
        (s\<lparr>tn_accepts := as, tn_sent := tn_sent s @ tc_buf t\<rparr>) c Reading)"
    using writing_pieces[of s ks "tc_buf t" 0 C c] assms(1-4) by auto
  let ?s = "s\<lparr>tn_accepts := as, tn_sent := tn_sent s @ tc_buf t, tn_arrivals := []\<rparr>"
  have "fst (tunnel_loop C (tc_buf t) 0 s c Writing) =
      (if v then Ok (Ready (?s, connected_proxy C True c))
       else Err (io_err ''unsuccessful tunnel''))"
    unfolding w by (subst reading_chunks[where as="[]"]) (use assms in auto)
  then have "tunnel_poll C (with_stream t s c) =
      Ret (if v then Ok (Ready (?s, connected_proxy C True c))
           else Err (io_err ''unsuccessful tunnel''), snd (tunnel_loop C (tc_buf t) 0 s c Writing))"
    by (simp add: tunnel_poll_def with_stream_def prod_eq_iff)
  then show ?thesis by (intro exI[of _ ?s]) auto
qed

section \<open>Peers that decide\<close>

text \<open>
  Scripts after which the tunnel is not pending any more: the head is taken or a write fails,
  and a read fails, ends or completes a decision.
\<close>

fun write_decides :: "nat \<Rightarrow> nat io_result list \<Rightarrow> bool" where
  "write_decides n [] \<longleftrightarrow> n = 0"
| "write_decides n (Err e # as) \<longleftrightarrow> True"
| "write_decides n (Ok k # as) \<longleftrightarrow> n = 0 \<or> k = 0 \<or> write_decides (n - k) as"

fun reply_decides :: "bytes \<Rightarrow> bytes io_result list \<Rightarrow> bool" where
  "reply_decides buf [] \<longleftrightarrow> False"
| "reply_decides buf (Err e # as) \<longleftrightarrow> True"
| "reply_decides buf (Ok bs # as) \<longleftrightarrow> bs = [] \<or> verdict (buf @ bs) \<noteq> None \<or> reply_decides (buf @ bs) as"

definition peer_decides :: "bytes \<Rightarrow> tunnel_stream \<Rightarrow> bool" where
  "peer_decides head s \<longleftrightarrow> write_decides (length head) (tn_accepts s) \<and> reply_decides [] (tn_arrivals s)"

lemma write_decides_0 [simp]: "write_decides 0 as"
  by (cases as rule: list.exhaust[case_product sum.exhaust[of "hd as"]]) auto

lemma write_decides_append: "write_decides n as \<Longrightarrow> write_decides n (as @ bs)"
  by (induction n as rule: write_decides.induct) auto

lemma reply_decides_append: "reply_decides buf as \<Longrightarrow> reply_decides buf (as @ bs)"
  by (induction buf as rule: reply_decides.induct) auto

lemma peer_decides_add_answers: "peer_decides head s \<Longrightarrow> peer_decides head (add_answers e s)"
  by (simp add: peer_decides_def add_answers_def write_decides_append reply_decides_append)

lemma reading_decides:
  "reply_decides buf as \<Longrightarrow> tn_arrivals s = as \<Longrightarrow> fst (tunnel_loop C buf pos s c Reading) \<noteq> Ok NotReady"
proof (induction buf as arbitrary: s rule: reply_decides.induct)
  case (2 buf e as)
  then show ?case by (subst tunnel_loop.simps) (simp add: stream_read_buf_def)
next
  case (3 buf bs as)
  have read: "stream_read_buf s = (Ok (Ready bs), s\<lparr>tn_arrivals := as\<rparr>)"
    using "3.prems" by (simp add: stream_read_buf_def)
  show ?case
    using "3.prems" "3.IH"[of "s\<lparr>tn_arrivals := as\<rparr>"]
    by (auto simp: reading_arrived[OF read] Let_def split: option.split bool.split)
qed simp

lemma writing_decides:
  "write_decides n as \<Longrightarrow> tn_accepts s = as \<Longrightarrow> n = length buf - pos \<Longrightarrow> reply_decides [] (tn_arrivals s) \<Longrightarrow>
   fst (tunnel_loop C buf pos s c Writing) \<noteq> Ok NotReady"
proof (induction n as arbitrary: s pos rule: write_decides.induct)
  case (1 n)
  with reading_decides[of "[]" "tn_arrivals s" s C pos c] show ?case
    by (subst tunnel_loop.simps) (simp add: stream_write_buf_def)
next
  case (2 n e as)
  with reading_decides[of "[]" "tn_arrivals s" s C pos c] show ?case
    by (subst tunnel_loop.simps) (simp add: stream_write_buf_def)
next
  case (3 n k as)
  let ?s = "s\<lparr>tn_accepts := as, tn_sent := tn_sent s @ take k (drop pos buf)\<rparr>"
  show ?case
  proof (cases "n = 0")
    case True
    with "3.prems" reading_decides[of "[]" "tn_arrivals s" s C pos c] show ?thesis
      by (subst tunnel_loop.simps) (simp add: stream_write_buf_def)
  next
    case False
    with "3.prems" have "stream_write_buf (drop pos buf) s = (Ok (Ready (min k n)), ?s)"
      by (simp add: stream_write_buf_def)
    with False "3.prems" "3.IH"[of ?s "pos + k"] reading_decides[of "[]" "tn_arrivals s" ?s C "pos + min k n" c]
    show ?thesis by (subst tunnel_loop.simps) (auto simp: min_def)
  qed
qed

lemma tunnel_decides_at_once:
  assumes "peer_decides (tc_buf t) s"
  shows "\<exists>r t'. tunnel_step C e (with_stream t s c) = Ret (r, t') \<and> r \<noteq> Ok NotReady"
proof -
  have "peer_decides (tc_buf t) (add_answers e s)" by (rule peer_decides_add_answers[OF assms])
  then have "fst (tunnel_loop C (tc_buf t) 0 (add_answers e s) c Writing) \<noteq> Ok NotReady"
    by (intro writing_decides) (auto simp: peer_decides_def)
  then show ?thesis
    by (cases "tunnel_loop C (tc_buf t) 0 (add_answers e s) c Writing")
      (auto simp: tunnel_step_def tunnel_poll_def feed_def with_stream_def)
qed

section \<open>Properties\<close>

text \<open>
  (C6) A tunnel is opened only by the proxy's consent: when the future completes, after any number
  of polls and whatever pieces were written and read, the stream it hands over has sent exactly
  the CONNECT head and the answer is a complete 200 response head; the connection is marked
  as proxied, and a further poll panics.
\<close>

theorem tunnel_completes_only_when_granted:
  assumes "run_polls (tunnel_step C) es (with_stream t s c) = Ret (Ok (Ready (s', c')), self')"
  shows "tn_sent s' = tn_sent s @ tc_buf t \<and> granted (tu_buf self') \<and> is_panic (tunnel_step C e self')"
proof -
  obtain d self0 where *: "tunnel_inv (tc_buf t) (tn_sent s) self0" "tunnel_live self0"
    "tunnel_step C d self0 = Ret (Ok (Ready (s', c')), self')"
    using tun.run_last_poll[OF _ _ assms] with_stream_inv[of t s c] by blast
  from tunnel_step_ok[OF *] tunnel_step_live[OF *(2,3)] show ?thesis
    by (simp add: loop_ok_def tunnel_step_panic_iff)
qed

definition sample_reply :: bytes where
  "sample_reply = lit ''HTTP/1.1 200 OK'' @ CRLF @ CRLF"

definition sample_schedule :: "tunnel_env list" where
  "sample_schedule = [([Ok 2], []), ([Ok 5], [Ok (take 9 sample_reply)]), ([], [Ok (drop 9 sample_reply)])]"

definition sample_tunnelling :: "http_info list tunnel" where
  "sample_tunnelling = with_stream \<lparr>tc_buf = [1, 2, 3]\<rparr> \<lparr>tn_accepts = [], tn_arrivals = [], tn_sent = []\<rparr> []"

theorem tunnel_completes_only_when_granted_witness: "granted sample_reply"
proof -
  have "run_polls (tunnel_step sample_connected) sample_schedule sample_tunnelling =
    Ret (Ok (Ready (\<lparr>tn_accepts = [], tn_arrivals = [], tn_sent = [1, 2, 3]\<rparr>, [])),
      \<lparr>tu_buf = sample_reply, tu_pos = 3, tu_stream = None, tu_connected = None, tu_state = Reading\<rparr>)"
    by code_simp
  from tunnel_completes_only_when_granted[OF this[unfolded sample_tunnelling_def], of "([], [])"] show ?thesis by simp
qed

text \<open>
  (C7) How the writes and the answers of the proxy are spread over polls does not matter: polling the
  tunnel any number of times, with answers arriving in between, gives the result, the buffer
  and the state that one poll gives in which all of them are there at once. Neither a byte of
  the head nor a byte of the answer is lost or repeated between two polls.
\<close>

theorem tunnel_schedule_irrelevant:
  assumes "es \<noteq> []"
  shows "omap tunnel_view (run_polls (tunnel_step C) es self) =
    omap tunnel_view (tunnel_step C (concat (map fst es), concat (map snd es)) self)"
  by (rule tunnel_polls_merge[OF assms])

theorem tunnel_schedule_irrelevant_witness:
  "omap tunnel_view (run_polls (tunnel_step sample_connected) sample_schedule sample_tunnelling) =
    Ret (Ok (Ready ([1, 2, 3], [])), sample_reply, 3, Reading)"
proof -
  have "sample_schedule \<noteq> []" by (simp add: sample_schedule_def)
  moreover have "omap tunnel_view (tunnel_step sample_connected
      (concat (map fst sample_schedule), concat (map snd sample_schedule)) sample_tunnelling) =
    Ret (Ok (Ready ([1, 2, 3], [])), sample_reply, 3, Reading)"
    by code_simp
  ultimately show ?thesis
    using tunnel_schedule_irrelevant[of sample_schedule sample_connected sample_tunnelling] by simp
qed

text \<open>
  (C23) A proxy that keeps answering brings the tunnel to its end: if over any number of polls the
  writes accept the head in any non-empty pieces and the answer arrives in any pieces, of which
  only the last completes a decision, then the result is the stream, on which exactly the
  head was sent, and the connection marked as proxied when the answer is a complete 200 head, and
  an error when it is not a 200.
\<close>

theorem tunnel_run_decides:
  assumes "tc_buf t \<noteq> []" and "es \<noteq> []"
    and "tn_accepts s @ concat (map fst es) = map Ok ks" and "0 \<notin> set ks" and "length (tc_buf t) \<le> sum_list ks"
    and "tn_arrivals s @ concat (map snd es) = map Ok (chunks @ [lst])" and "[] \<notin> set (chunks @ [lst])"
    and "\<And>k. k \<le> length chunks \<Longrightarrow> verdict (concat (take k chunks)) = None"
    and "verdict (concat chunks @ lst) = Some v"
  shows "\<exists>s' self'. tn_sent s' = tn_sent s @ tc_buf t \<and>
    run_polls (tunnel_step C) es (with_stream t s c) =
      Ret (if v then Ok (Ready (s', connected_proxy C True c))
           else Err (io_err ''unsuccessful tunnel''), self')"
proof -
  let ?e = "(concat (map fst es), concat (map snd es))"
  obtain s1 self1 where once: "tn_sent s1 = tn_sent s @ tc_buf t"
    "tunnel_step C ?e (with_stream t s c) =
      Ret (if v then Ok (Ready (s1, connected_proxy C True c)) else Err (io_err ''unsuccessful tunnel''), self1)"
    using tunnel_poll_decides[of t "add_answers ?e s" ks chunks lst v C c] assms
    by (auto simp: add_answers_def tunnel_step_def feed_def with_stream_def)
  with tunnel_polls_merge[OF assms(2), of C "with_stream t s c"]
  obtain r self' where run: "run_polls (tunnel_step C) es (with_stream t s c) = Ret (r, self')"
    "map_answer (\<lambda>(s, c). (tn_sent s, c)) id r =
     (if v then Ok (Ready (tn_sent s1, connected_proxy C True c)) else Err (io_err ''unsuccessful tunnel''))"
    by (auto simp: omap_eq_Ret_iff tunnel_view_def split: if_splits)
  show ?thesis
  proof (cases v)
    case True
    with run(2) obtain s' where "r = Ok (Ready (s', connected_proxy C True c))" "tn_sent s' = tn_sent s1"
      by (auto simp: map_answer_Ready)
    with True run(1) once(1) show ?thesis by auto
  next
    case False
    with run(2) have "r = Err (io_err ''unsuccessful tunnel'')"
      by (cases r; cases "projr r") (auto simp: map_answer_def)
    with False run(1) once(1) show ?thesis by auto
  qed
qed

theorem tunnel_run_decides_witness:
  "\<exists>s' self'. tn_sent s' = [1, 2, 3] \<and>
    run_polls (tunnel_step sample_connected) sample_schedule sample_tunnelling = Ret (Ok (Ready (s', [])), self')"
proof -
  have v: "verdict (concat (take k [take 9 sample_reply])) = None" if "k \<le> 1" for k
    using that by (cases k) (simp_all add: verdict_def sample_reply_def)
  have t: "verdict (concat [take 9 sample_reply] @ drop 9 sample_reply) = Some True"
    and ne: "drop 9 sample_reply \<noteq> []" "take 9 sample_reply \<noteq> []"
    by code_simp+
  have "\<exists>s' self'. tn_sent s' = [] @ [1, 2, 3] \<and> run_polls (tunnel_step sample_connected) sample_schedule sample_tunnelling =
      Ret (if True then Ok (Ready (s', connected_proxy sample_connected True []))
           else Err (io_err ''unsuccessful tunnel''), self')"
    using tunnel_run_decides[of "\<lparr>tc_buf = [1, 2, 3]\<rparr>" sample_schedule
        "\<lparr>tn_accepts = [], tn_arrivals = [], tn_sent = []\<rparr>" "[2, 5]" "[take 9 sample_reply]" "drop 9 sample_reply"
        True sample_connected "[]"] v t ne
    unfolding sample_tunnelling_def by (simp add: sample_schedule_def del: run_polls.simps)
  then show ?thesis by (simp add: sample_connected_def)
qed

end
