(* ===== verification/Proxy.thy ===== *)
theory Proxy
  imports Tunnel
begin

text \<open>
  Proxies, \<open>src/src/proxy/mod.rs\<close>: which destinations a proxy intercepts, the list of proxies
  around a connector with the operations on it, and \<open>proxy_dst\<close>, which rewrites a destination
  to the address of a proxy. What connecting does with them is in theory \<open>Proxy_Connector\<close>.
\<close>

section \<open>Intercepts\<close>

text \<open>\<open>Dst\<close>: the scheme, host and port that an intercept looks at.\<close>

record dst_view =
  dv_scheme :: "rstr option"
  dv_host :: "rstr option"
  dv_port :: "u16 option"

definition uri_dst :: "('u, 's, 'a, 'q) uri_api \<Rightarrow> 'u \<Rightarrow> dst_view" where
  "uri_dst A u =
     \<lparr>dv_scheme = map_option (scheme_as_str A) (scheme_part A u), dv_host = uri_host A u,
      dv_port = port_u16 A u\<rparr>"

definition destination_dst :: "('u, 's, 'a, 'q) uri_api \<Rightarrow> 'u destination \<Rightarrow> dst_view" where
  "destination_dst A dst =
     \<lparr>dv_scheme = Some (dst_scheme A dst), dv_host = Some (dst_host A dst), dv_port = dst_port A dst\<rparr>"

datatype custom = CustomFn "rstr option \<Rightarrow> rstr option \<Rightarrow> u16 option \<Rightarrow> bool"

definition custom_from :: "(rstr option \<Rightarrow> rstr option \<Rightarrow> u16 option \<Rightarrow> bool) \<Rightarrow> custom" where
  "custom_from f = CustomFn f"

datatype intercept =
    All
  | InterceptHttp
  | InterceptHttps
  | InterceptNone
  | Custom custom

definition intercept_from :: "(rstr option \<Rightarrow> rstr option \<Rightarrow> u16 option \<Rightarrow> bool) \<Rightarrow> intercept" where
  "intercept_from f = Custom (custom_from f)"

definition matches :: "intercept \<Rightarrow> dst_view \<Rightarrow> bool" where
  "matches self uri =
     (case (self, dv_scheme uri) of
        (All, _) \<Rightarrow> True
      | (InterceptHttp, Some s) \<Rightarrow> s = lit ''http''
      | (InterceptHttps, Some s) \<Rightarrow> s = lit ''https''
      | (Custom (CustomFn f), _) \<Rightarrow> f (dv_scheme uri) (dv_host uri) (dv_port uri)
      | _ \<Rightarrow> False)"

section \<open>Proxies\<close>

record ('hm, 'u) proxy =
  px_intercept :: intercept
  px_headers :: 'hm
  px_uri :: 'u

definition proxy_new :: "('hm, 'hn, 'hv, 'cr) hdr_api \<Rightarrow> intercept \<Rightarrow> 'u \<Rightarrow> ('hm, 'u) proxy" where
  "proxy_new D intercept uri = \<lparr>px_intercept = intercept, px_headers = hdr_new D, px_uri = uri\<rparr>"

definition set_authorization ::
    "('hm, 'hn, 'hv, 'cr) hdr_api \<Rightarrow> 'cr \<Rightarrow> ('hm, 'u) proxy \<Rightarrow> ('hm, 'u) proxy" where
  "set_authorization D credentials self =
     (case px_intercept self of
        InterceptHttp \<Rightarrow> self\<lparr>px_headers := insert_authorization D credentials (px_headers self)\<rparr>
      | InterceptHttps \<Rightarrow>
          self\<lparr>px_headers := insert_proxy_authorization D credentials (px_headers self)\<rparr>
      | _ \<Rightarrow>
          self\<lparr>px_headers := insert_proxy_authorization D credentials
                 (insert_authorization D credentials (px_headers self))\<rparr>)"

definition set_header ::
    "('hm, 'hn, 'hv, 'cr) hdr_api \<Rightarrow> 'hn \<Rightarrow> 'hv \<Rightarrow> ('hm, 'u) proxy \<Rightarrow> ('hm, 'u) proxy" where
  "set_header D name val self = self\<lparr>px_headers := hdr_insert D name val (px_headers self)\<rparr>"

definition proxy_intercept :: "('hm, 'u) proxy \<Rightarrow> intercept" where
  "proxy_intercept self = px_intercept self"

definition proxy_headers :: "('hm, 'u) proxy \<Rightarrow> 'hm" where
  "proxy_headers self = px_headers self"

definition proxy_uri :: "('hm, 'u) proxy \<Rightarrow> 'u" where
  "proxy_uri self = px_uri self"

section \<open>The connector\<close>

record ('hm, 'u, 'k, 'tls) proxy_connector =
  pc_proxies :: "('hm, 'u) proxy list"
  pc_connector :: 'k
  pc_tls :: "'tls option"

definition unsecured :: "'k \<Rightarrow> ('hm, 'u, 'k, 'tls) proxy_connector" where
  "unsecured connector = \<lparr>pc_proxies = [], pc_connector = connector, pc_tls = None\<rparr>"

text \<open>\<open>build\<close> is the result of \<open>NativeTlsConnector::builder().build()\<close>.\<close>

definition proxy_connector_new ::
    "(string + 'tls) \<Rightarrow> 'k \<Rightarrow> ('hm, 'u, 'k, 'tls) proxy_connector io_result" where
  "proxy_connector_new build connector =
     (case build of
        Err e \<Rightarrow> Err (IoError Other e)
      | Ok tls \<Rightarrow> Ok \<lparr>pc_proxies = [], pc_connector = connector, pc_tls = Some tls\<rparr>)"

definition proxies :: "('hm, 'u, 'k, 'tls) proxy_connector \<Rightarrow> ('hm, 'u) proxy list" where
  "proxies self = pc_proxies self"

definition add_proxy ::
    "('hm, 'u) proxy \<Rightarrow> ('hm, 'u, 'k, 'tls) proxy_connector \<Rightarrow> ('hm, 'u, 'k, 'tls) proxy_connector" where
  "add_proxy p self = self\<lparr>pc_proxies := pc_proxies self @ [p]\<rparr>"

definition extend_proxies ::
    "('hm, 'u) proxy list \<Rightarrow> ('hm, 'u, 'k, 'tls) proxy_connector \<Rightarrow>
     ('hm, 'u, 'k, 'tls) proxy_connector" where
  "extend_proxies ps self = self\<lparr>pc_proxies := pc_proxies self @ ps\<rparr>"

definition from_proxy ::
    "(string + 'tls) \<Rightarrow> 'k \<Rightarrow> ('hm, 'u) proxy \<Rightarrow> ('hm, 'u, 'k, 'tls) proxy_connector io_result" where
  "from_proxy build connector p =
     (case proxy_connector_new build connector of
        Err e \<Rightarrow> Err e
      | Ok c \<Rightarrow> Ok (c\<lparr>pc_proxies := pc_proxies c @ [p]\<rparr>))"

definition from_proxy_unsecured ::
    "'k \<Rightarrow> ('hm, 'u) proxy \<Rightarrow> ('hm, 'u, 'k, 'tls) proxy_connector" where
  "from_proxy_unsecured connector p =
     (let c = unsecured connector in c\<lparr>pc_proxies := pc_proxies c @ [p]\<rparr>)"

definition with_connector ::
    "'k2 \<Rightarrow> ('hm, 'u, 'k, 'tls) proxy_connector \<Rightarrow> ('hm, 'u, 'k2, 'tls) proxy_connector" where
  "with_connector connector self =
     \<lparr>pc_proxies = pc_proxies self, pc_connector = connector, pc_tls = pc_tls self\<rparr>"

definition set_tls ::
    "'tls option \<Rightarrow> ('hm, 'u, 'k, 'tls) proxy_connector \<Rightarrow> ('hm, 'u, 'k, 'tls) proxy_connector" where
  "set_tls tls self = self\<lparr>pc_tls := tls\<rparr>"

definition match_proxy ::
    "('hm, 'u, 'k, 'tls) proxy_connector \<Rightarrow> dst_view \<Rightarrow> ('hm, 'u) proxy option" where
  "match_proxy self uri = find (\<lambda>p. matches (px_intercept p) uri) (pc_proxies self)"

definition http_headers ::
    "('u, 's, 'a, 'q) uri_api \<Rightarrow> ('hm, 'u, 'k, 'tls) proxy_connector \<Rightarrow> 'u \<Rightarrow> 'hm option" where
  "http_headers A self uri =
     (if (case scheme_part A uri of None \<Rightarrow> True | Some s \<Rightarrow> scheme_as_str A s \<noteq> lit ''http'')
      then None
      else map_option px_headers (match_proxy self (uri_dst A uri)))"

section \<open>The destination of a proxy\<close>

primrec connect_error_display :: "connect_error \<Rightarrow> string" where
  "connect_error_display Parse = ''Parse''"

text \<open>\<open>display\<close> is the \<open>Display\<close> implementation of the URI type.\<close>

definition proxy_dst ::
    "('u, 's, 'a, 'q) uri_api \<Rightarrow> ('u \<Rightarrow> string) \<Rightarrow> 'u destination \<Rightarrow> 'u \<Rightarrow>
     'u destination io_result outcome" where
  "proxy_dst A display dst proxy =
     (case scheme_part A proxy of
        None \<Rightarrow> Ret (Err (io_err (''proxy uri missing scheme: '' @ display proxy)))
      | Some s \<Rightarrow>
        (case set_scheme A (scheme_as_str A s) dst of
           (Err e, _) \<Rightarrow> Ret (Err (io_err (connect_error_display e)))
         | (Ok _, dst) \<Rightarrow>
           (case uri_host A proxy of
              None \<Rightarrow> Ret (Err (io_err (''proxy uri missing host: '' @ display proxy)))
            | Some h \<Rightarrow>
              (case set_host A h dst of
                 (Err e, _) \<Rightarrow> Ret (Err (io_err (connect_error_display e)))
               | (Ok _, dst) \<Rightarrow> omap Ok (set_port A (port_u16 A proxy) dst)))))"

lemma proxy_dst_Ok:
  assumes "proxy_dst A display dst proxy = Ret (Ok dst')"
  obtains s h d1 d2 where "scheme_part A proxy = Some s" and "uri_host A proxy = Some h"
    and "set_scheme A (scheme_as_str A s) dst = (Ok (), d1)" and "set_host A h d1 = (Ok (), d2)"
    and "set_port A (port_u16 A proxy) d2 = Ret dst'"
  using assms
  by (auto simp: proxy_dst_def omap_eq_Ret_iff split: option.splits prod.splits sum.splits)

lemma proxy_dst_is_proxy:
  assumes "uri_api_ok A" and "proxy_dst A display dst proxy = Ret (Ok dst')"
    and "\<And>s. scheme_part A proxy = Some s \<Longrightarrow> scheme_parse A (scheme_as_str A s) = Some s"
    and "\<And>h. uri_host A proxy = Some h \<Longrightarrow> plain_host h"
  shows "scheme_part A (dst_uri dst') = scheme_part A proxy \<and>
    uri_host A (dst_uri dst') = uri_host A proxy \<and> port_u16 A (dst_uri dst') = port_u16 A proxy"
proof (rule proxy_dst_Ok[OF assms(2)])
  fix s h d1 d2
  assume s: "scheme_part A proxy = Some s" and h: "uri_host A proxy = Some h"
    and d1: "set_scheme A (scheme_as_str A s) dst = (Ok (), d1)"
    and d2: "set_host A h d1 = (Ok (), d2)" and d3: "set_port A (port_u16 A proxy) d2 = Ret dst'"
  have ph: "plain_host h" by (rule assms(4)[OF h])
  from set_scheme_Ok[OF assms(1) d1] assms(3)[OF s] have "scheme_part A (dst_uri d1) = Some s" by simp
  with set_host_Ok[OF assms(1) d2 ph] have "scheme_part A (dst_uri d2) = Some s"
    and "uri_host A (dst_uri d2) = Some h" by simp_all
  with set_port_Ret[OF assms(1) d3 _ ph] s h show ?thesis by simp
qed

lemma match_proxy_first:
  "match_proxy self v = Some p \<longleftrightarrow>
     (\<exists>before after. pc_proxies self = before @ p # after \<and> matches (px_intercept p) v \<and>
        (\<forall>q\<in>set before. \<not> matches (px_intercept q) v))"
proof
  assume "match_proxy self v = Some p"
  then obtain i where i: "i < length (pc_proxies self)" "matches (px_intercept (pc_proxies self ! i)) v"
    "p = pc_proxies self ! i" "\<forall>j<i. \<not> matches (px_intercept (pc_proxies self ! j)) v"
    by (auto simp: match_proxy_def find_Some_iff)
  then have "pc_proxies self = take i (pc_proxies self) @ p # drop (Suc i) (pc_proxies self)"
    by (simp add: id_take_nth_drop)
  moreover have "\<forall>q\<in>set (take i (pc_proxies self)). \<not> matches (px_intercept q) v"
    using i by (auto simp: in_set_conv_nth)
  ultimately show "\<exists>before after. pc_proxies self = before @ p # after \<and> matches (px_intercept p) v \<and>
        (\<forall>q\<in>set before. \<not> matches (px_intercept q) v)"
    using i by blast
next
  assume "\<exists>before after. pc_proxies self = before @ p # after \<and> matches (px_intercept p) v \<and>
        (\<forall>q\<in>set before. \<not> matches (px_intercept q) v)"
  then obtain before after where ps: "pc_proxies self = before @ p # after"
    and p: "matches (px_intercept p) v" and none: "\<forall>q\<in>set before. \<not> matches (px_intercept q) v" by blast
  have "find (\<lambda>p. matches (px_intercept p) v) (before @ p # after) = Some p"
    using none p by (induction before) auto
  with ps show "match_proxy self v = Some p" by (simp add: match_proxy_def)
qed

lemma match_with_connector [simp]: "match_proxy (with_connector k self) v = match_proxy self v"
  by (simp add: match_proxy_def with_connector_def)

lemma proxy_dst_host:
  assumes "uri_api_ok A" and "scheme_needs_authority A" and "proxy_dst A display dst proxy = Ret (Ok dst')"
  shows "uri_host A (dst_uri dst) \<noteq> None"
  by (rule proxy_dst_Ok[OF assms(3)]) (rule set_scheme_host[OF assms(1,2)])

section \<open>Properties\<close>

text \<open>
  (C26) The first proxy of the list whose intercept matches is used, and its address replaces that
  of the destination: scheme, host and port of the rewritten destination are those of the
  proxy's URI, whatever they were before.
\<close>

theorem proxy_dst_points_at_proxy:
  assumes "uri_api_ok A"
    and "\<And>s. scheme_part A (px_uri p) = Some s \<Longrightarrow> scheme_parse A (scheme_as_str A s) = Some s"
    and "\<And>h. uri_host A (px_uri p) = Some h \<Longrightarrow> plain_host h"
    and "match_proxy self (destination_dst A dst) = Some p"
    and "proxy_dst A display dst (px_uri p) = Ret (Ok dst')"
  shows "(\<exists>before after. pc_proxies self = before @ p # after \<and>
       (\<forall>q\<in>set before. \<not> matches (px_intercept q) (destination_dst A dst))) \<and>
     uri_dst A (dst_uri dst') = uri_dst A (px_uri p)"
  using proxy_dst_is_proxy[OF assms(1,5,2,3)] assms(4)
  by (auto simp: match_proxy_first uri_dst_def)

definition sample_uri :: "rstr \<Rightarrow> rstr \<Rightarrow> u16 option \<Rightarrow> sample_uri" where
  "sample_uri scheme host port = dst_uri (sample_dst scheme host port)"

text \<open>Header maps as lists of pairs, a proxy and a connector to go with the sample URIs.\<close>

definition sample_hdr :: "((rstr \<times> rstr) list, rstr, rstr, rstr) hdr_api" where
  "sample_hdr =
     \<lparr>hdr_new = [], hdr_insert = (\<lambda>n v h. filter (\<lambda>x. fst x \<noteq> n) h @ [(n, v)]), hdr_iter = id,
      value_to_str = Some, insert_authorization = (\<lambda>c h. (lit ''authorization'', c) # h),
      insert_proxy_authorization = (\<lambda>c h. (lit ''proxy-authorization'', c) # h)\<rparr>"

definition sample_proxy :: "((rstr \<times> rstr) list, sample_uri) proxy" where
  "sample_proxy = proxy_new sample_hdr InterceptHttps (sample_uri (lit ''http'') (lit ''px'') (Some 3128))"

definition sample_proxies :: "((rstr \<times> rstr) list, sample_uri, unit, unit) proxy_connector" where
  "sample_proxies = from_proxy_unsecured () sample_proxy"

lemma sample_proxy_dst:
  "proxy_dst sample_api (\<lambda>u. ''u'') (sample_dst (lit ''https'') (lit ''a'') None) (px_uri sample_proxy) =
    Ret (Ok (sample_dst (lit ''http'') (lit ''px'') (Some 3128)))"
proof -
  have h: "plain_host (lit ''px'')" by code_simp
  note auth = sample_authority_plain[OF h] sample_authority_port[OF h, of 3128]
  have "AT \<notin> set (lit ''px'')" using h by (simp add: plain_host_def)
  then show ?thesis
    by (simp add: proxy_dst_def sample_proxy_def proxy_new_def sample_uri_def sample_dst_def sample_api_def
        set_scheme_def set_host_def set_port_def set_port_opt_def update_uri_def dst_port_def dst_host_def
        auth)
qed

lemma sample_match:
  "match_proxy sample_proxies (destination_dst sample_api (sample_dst (lit ''https'') (lit ''a'') None)) =
    Some sample_proxy"
  by (simp add: match_proxy_def sample_proxies_def from_proxy_unsecured_def unsecured_def Let_def
      sample_proxy_def proxy_new_def matches_def destination_dst_def dst_scheme_def sample_api_def
      sample_dst_def)

theorem proxy_dst_points_at_proxy_witness:
  "uri_dst sample_api (dst_uri (sample_dst (lit ''http'') (lit ''px'') (Some 3128))) =
    uri_dst sample_api (px_uri sample_proxy)"
proof -
  have "scheme_parse sample_api (scheme_as_str sample_api s) = Some s" for s
    by (simp add: sample_api_def)
  moreover have "plain_host h" if "uri_host sample_api (px_uri sample_proxy) = Some h" for h
  proof -
    have "plain_host (lit ''px'')" by code_simp
    with that show ?thesis
      by (simp add: sample_api_def sample_proxy_def proxy_new_def sample_uri_def sample_dst_def)
  qed
  ultimately show ?thesis
    using proxy_dst_points_at_proxy[OF sample_api_ok(1) _ _ sample_match sample_proxy_dst] by blast
qed

end
