(* ===== verification/Proxy_Connector.thy ===== *)
theory Proxy_Connector
  imports Proxy Https_Connector
begin

text \<open>
  Connecting through proxies, \<open>ProxyConnector::connect\<close> of \<open>src/src/proxy/mod.rs\<close>, over any
  implementation of \<open>Connect\<close>: the destination is rewritten and, for \<open>https\<close>, a tunnel opened.
  \<open>tokio_tls\<close> is the record \<open>tokio_tls_api\<close>. \<open>proxy_connect\<close> builds the boxed future of the
  code, \<open>proxy_poll\<close> polls it, and \<open>proxy_api\<close> is the connector as an implementation of
  \<open>Connect\<close>. As for the TLS connector, each locale \<open>proxy_...\<close> takes a promise of the inner
  connector and gives it back for the proxy connector; the TLS connector on the HTTP
  connector with the default resolver is an instance of each.
\<close>

section \<open>Connecting\<close>

text \<open>\<open>tokio_tls\<close>: \<open>TlsConnector::connect\<close> makes a future for a host and a stream.\<close>

record ('tls, 'tf, 'n, 'e, 'w) tokio_tls_api =
  tt_connect :: "'tls \<Rightarrow> rstr \<Rightarrow> tunnel_stream \<Rightarrow> 'tf"
  tt_poll :: "('e, 'tf, 'w, string, 'n) world_poll"

text \<open>
  The boxed future: an error, the inner connector's future, that future chained with the tunnel,
  or the tunnelled stream chained with the TLS future. The closures own the tunnel, and the
  TLS connector with the host.
\<close>

type_synonym ('f, 'c) tunnelling = "('f, tunnel_connect, 'c tunnel) chain"

datatype ('f, 'c, 'tls, 'tf) proxy_connecting =
    ProxyError "io_error option"
  | ProxyDirect 'f
  | ProxyTunnel "('f, 'c) tunnelling"
  | ProxySecured "(('f, 'c) tunnelling, 'tls \<times> rstr, 'tf) chain"

definition unwrap_or_future ::
    "'a io_result \<Rightarrow> ('a \<Rightarrow> ('f, 'c, 'tls, 'tf) proxy_connecting outcome) \<Rightarrow>
     ('f, 'c, 'tls, 'tf) proxy_connecting outcome" where
  "unwrap_or_future expr body =
     (case expr of
        Ok val \<Rightarrow> body val
      | Err e \<Rightarrow> Ret (ProxyError (Some e)))"

definition proxy_connect ::
    "('u, 's, 'a, 'q) uri_api \<Rightarrow> ('hm, 'hn, 'hv, 'cr) hdr_api \<Rightarrow> ('u \<Rightarrow> string) \<Rightarrow>
     ('k \<Rightarrow> 'u destination \<Rightarrow> 'f outcome) \<Rightarrow> ('hm, 'u, 'k, 'tls) proxy_connector \<Rightarrow> 'u destination \<Rightarrow>
     ('f, 'c, 'tls, 'tf) proxy_connecting outcome" where
  "proxy_connect A D display connect self dst =
     (case match_proxy self (destination_dst A dst) of
        Some p \<Rightarrow>
          if dst_scheme A dst = lit ''https'' then
            (let host = dst_host A dst;
                 port = (case dst_port A dst of Some port \<Rightarrow> port | None \<Rightarrow> 443) in
             obind (tunnel_new D host port (px_headers p)) (\<lambda>tunnel.
             obind (proxy_dst A display dst (px_uri p)) (\<lambda>r.
             unwrap_or_future r (\<lambda>pdst.
             obind (connect (pc_connector self) pdst) (\<lambda>f.
               let proxy_stream = First f tunnel in
               case pc_tls self of
                 Some tls \<Rightarrow> Ret (ProxySecured (First proxy_stream (tls, host)))
               | None \<Rightarrow> Ret (ProxyTunnel proxy_stream))))))
          else
            obind (proxy_dst A display dst (px_uri p)) (\<lambda>r.
            unwrap_or_future r (\<lambda>pdst. omap ProxyDirect (connect (pc_connector self) pdst)))
      | None \<Rightarrow> omap ProxyDirect (connect (pc_connector self) dst))"

text \<open>
  The tunnel as a future next to the world; \<open>tenv\<close> reads off the environment of a poll what
  the stream of the tunnel meets in it.
\<close>

definition tunnel_future ::
    "'c connected_api \<Rightarrow> ('e \<Rightarrow> tunnel_env) \<Rightarrow> ('e, 'c tunnel, 'w, io_error, tunnel_stream \<times> 'c) world_poll" where
  "tunnel_future C tenv e s =
     (case s of (t, w) \<Rightarrow> omap (\<lambda>(r, t'). (r, t', w)) (tunnel_step C (tenv e) t))"

text \<open>
  \<open>connect(proxy_dst).map_err(io_err).and_then(|(io, c)| tunnel.with_stream(io, c))\<close>;
  \<open>msg\<close> is the message of an error of the inner connector.
\<close>

definition tunnelling_poll ::
    "'c connected_api \<Rightarrow> ('e \<Rightarrow> tunnel_env) \<Rightarrow> ('x \<Rightarrow> string) \<Rightarrow>
     ('e, 'f, 'w, 'x, tunnel_stream \<times> 'c) world_poll \<Rightarrow>
     ('e, ('f, 'c) tunnelling, 'w, io_error, tunnel_stream \<times> 'c) world_poll" where
  "tunnelling_poll C tenv msg poll =
     and_then_poll (map_poll id (\<lambda>x. io_err (msg x)) poll)
       (\<lambda>tunnel (io, c) w. (with_stream tunnel io c, w)) (tunnel_future C tenv)"

text \<open>\<open>.and_then(|(io, _)| tls.connect(&host, io).map_err(io_err)).map(|s| (Secured(s), ...))\<close>\<close>

definition secured_poll ::
    "'c connected_api \<Rightarrow> ('e \<Rightarrow> tunnel_env) \<Rightarrow> ('x \<Rightarrow> string) \<Rightarrow> ('tls, 'tf, 'n, 'e, 'w) tokio_tls_api \<Rightarrow>
     ('e, 'f, 'w, 'x, tunnel_stream \<times> 'c) world_poll \<Rightarrow>
     ('e, (('f, 'c) tunnelling, 'tls \<times> rstr, 'tf) chain, 'w, io_error,
      (tunnel_stream, 'n) proxy_stream \<times> 'c) world_poll" where
  "secured_poll C tenv msg T poll =
     map_poll (\<lambda>s. (Secured s, connected_proxy C True (connected_new C))) id
       (and_then_poll (tunnelling_poll C tenv msg poll)
         (\<lambda>(tls, host) (io, c) w. (tt_connect T tls host io, w)) (map_poll id io_err (tt_poll T)))"

definition proxy_poll ::
    "'c connected_api \<Rightarrow> ('e \<Rightarrow> tunnel_env) \<Rightarrow> ('x \<Rightarrow> string) \<Rightarrow> ('tls, 'tf, 'n, 'e, 'w) tokio_tls_api \<Rightarrow>
     ('e, 'f, 'w, 'x, tunnel_stream \<times> 'c) world_poll \<Rightarrow>
     ('e, ('f, 'c, 'tls, 'tf) proxy_connecting, 'w, io_error, (tunnel_stream, 'n) proxy_stream \<times> 'c) world_poll" where
  "proxy_poll C tenv msg T poll e s =
     (case s of
        (ProxyError x, w) \<Rightarrow> omap (\<lambda>(r, x', w'). (r, ProxyError x', w')) (err_poll e (x, w))
      | (ProxyDirect f, w) \<Rightarrow>
          omap (\<lambda>(r, f', w'). (r, ProxyDirect f', w'))
            (map_poll (\<lambda>(s, c). (Regular s, c)) (\<lambda>x. io_err (msg x)) poll e (f, w))
      | (ProxyTunnel ch, w) \<Rightarrow>
          omap (\<lambda>(r, ch', w'). (r, ProxyTunnel ch', w'))
            (map_poll (\<lambda>(s, c). (Regular s, c)) id (tunnelling_poll C tenv msg poll) e (ch, w))
      | (ProxySecured ch, w) \<Rightarrow>
          omap (\<lambda>(r, ch', w'). (r, ProxySecured ch', w')) (secured_poll C tenv msg T poll e (ch, w)))"

definition proxy_api ::
    "('u, 's, 'a, 'q) uri_api \<Rightarrow> ('hm, 'hn, 'hv, 'cr) hdr_api \<Rightarrow> ('u \<Rightarrow> string) \<Rightarrow> 'c connected_api \<Rightarrow>
     ('e \<Rightarrow> tunnel_env) \<Rightarrow> ('x \<Rightarrow> string) \<Rightarrow> ('tls, 'tf, 'n, 'e, 'w) tokio_tls_api \<Rightarrow>
     ('k, 'u, 'f, 'e, 'w, 'x, tunnel_stream \<times> 'c) connect_api \<Rightarrow>
     (('hm, 'u, 'k, 'tls) proxy_connector, 'u, ('f, 'c, 'tls, 'tf) proxy_connecting, 'e, 'w, io_error,
      (tunnel_stream, 'n) proxy_stream \<times> 'c) connect_api" where
  "proxy_api A D display C tenv msg T K =
     \<lparr>ca_connect = proxy_connect A D display (ca_connect K), ca_poll = proxy_poll C tenv msg T (ca_poll K)\<rparr>"

lemma proxy_api_simps [simp]:
  "ca_connect (proxy_api A D display C tenv msg T K) = proxy_connect A D display (ca_connect K)"
  "ca_poll (proxy_api A D display C tenv msg T K) = proxy_poll C tenv msg T (ca_poll K)"
  by (simp_all add: proxy_api_def)

lemma proxy_poll_simps:
  "proxy_poll C tenv msg T poll e (ProxyError x, w) =
     omap (\<lambda>(r, x', w'). (r, ProxyError x', w')) (err_poll e (x, w))"
  "proxy_poll C tenv msg T poll e (ProxyDirect f, w) =
     omap (\<lambda>(r, f', w'). (r, ProxyDirect f', w'))
       (map_poll (\<lambda>(s, c). (Regular s, c)) (\<lambda>x. io_err (msg x)) poll e (f, w))"
  "proxy_poll C tenv msg T poll e (ProxyTunnel ch, w) =
     omap (\<lambda>(r, ch', w'). (r, ProxyTunnel ch', w'))
       (map_poll (\<lambda>(s, c). (Regular s, c)) id (tunnelling_poll C tenv msg poll) e (ch, w))"
  "proxy_poll C tenv msg T poll e (ProxySecured sec, w) =
     omap (\<lambda>(r, ch', w'). (r, ProxySecured ch', w')) (secured_poll C tenv msg T poll e (sec, w))"
  by (simp_all add: proxy_poll_def)

lemmas proxy_runs =
  wrapped_run[where poll="proxy_poll C tenv msg T poll" and K=ProxyDirect, OF proxy_poll_simps(2)]
  wrapped_run[where poll="proxy_poll C tenv msg T poll" and K=ProxyTunnel, OF proxy_poll_simps(3)]
  wrapped_run[where poll="proxy_poll C tenv msg T poll" and K=ProxySecured, OF proxy_poll_simps(4)]
  for C tenv msg T poll

lemmas proxy_settles =
  settles_wrapped[where poll="proxy_poll C tenv msg T poll" and K=ProxyDirect, OF proxy_poll_simps(2)]
  settles_wrapped[where poll="proxy_poll C tenv msg T poll" and K=ProxyTunnel, OF proxy_poll_simps(3)]
  settles_wrapped[where poll="proxy_poll C tenv msg T poll" and K=ProxySecured, OF proxy_poll_simps(4)]
  for C tenv msg T poll

section \<open>What connect returns\<close>

definition tunnel_port :: "('u, 's, 'a, 'q) uri_api \<Rightarrow> 'u destination \<Rightarrow> u16" where
  "tunnel_port A dst = (case dst_port A dst of Some port \<Rightarrow> port | None \<Rightarrow> 443)"

text \<open>
  \<open>connect\<close> itself can panic: on a header of the proxy that is not visible text, and in
  \<open>set_port\<close> when the rewritten authority is not one.
\<close>

definition proxy_ready ::
    "('u, 's, 'a, 'q) uri_api \<Rightarrow> ('hm, 'hn, 'hv, 'cr) hdr_api \<Rightarrow> ('u \<Rightarrow> string) \<Rightarrow>
     ('hm, 'u, 'k, 'tls) proxy_connector \<Rightarrow> 'u destination \<Rightarrow> bool" where
  "proxy_ready A D display self dst \<longleftrightarrow>
     (case match_proxy self (destination_dst A dst) of
        None \<Rightarrow> True
      | Some p \<Rightarrow>
          (dst_scheme A dst = lit ''https'' \<longrightarrow>
             \<not> is_panic (tunnel_new D (dst_host A dst) (tunnel_port A dst) (px_headers p))) \<and>
          \<not> is_panic (proxy_dst A display dst (px_uri p)))"

lemma proxy_connect_panic:
  assumes "proxy_ready A D display self dst" and "\<And>d. \<not> is_panic (connect (pc_connector self) d)"
  shows "\<not> is_panic (proxy_connect A D display connect self dst)"
  using assms
  by (auto simp: proxy_connect_def proxy_ready_def tunnel_port_def Let_def unwrap_or_future_def is_panic_obind
      split: option.splits sum.splits)

text \<open>The future that is returned, case by case.\<close>

lemma proxy_connect_Ret:
  assumes "proxy_connect A D display connect self dst = Ret st"
  obtains
    (unproxied) f where "match_proxy self (destination_dst A dst) = None"
      "connect (pc_connector self) dst = Ret f" "st = ProxyDirect f"
  | (no_address) p e where "match_proxy self (destination_dst A dst) = Some p"
      "proxy_dst A display dst (px_uri p) = Ret (Err e)" "st = ProxyError (Some e)"
  | (forwarded) p pdst f where "match_proxy self (destination_dst A dst) = Some p"
      "dst_scheme A dst \<noteq> lit ''https''" "proxy_dst A display dst (px_uri p) = Ret (Ok pdst)"
      "connect (pc_connector self) pdst = Ret f" "st = ProxyDirect f"
  | (tunnelled) p t pdst f where "match_proxy self (destination_dst A dst) = Some p"
      "dst_scheme A dst = lit ''https''"
      "tunnel_new D (dst_host A dst) (tunnel_port A dst) (px_headers p) = Ret t"
      "proxy_dst A display dst (px_uri p) = Ret (Ok pdst)"
      "connect (pc_connector self) pdst = Ret f" "pc_tls self = None" "st = ProxyTunnel (First f t)"
  | (secured) p t pdst f tls where "match_proxy self (destination_dst A dst) = Some p"
      "dst_scheme A dst = lit ''https''"
      "tunnel_new D (dst_host A dst) (tunnel_port A dst) (px_headers p) = Ret t"
      "proxy_dst A display dst (px_uri p) = Ret (Ok pdst)"
      "connect (pc_connector self) pdst = Ret f" "pc_tls self = Some tls"
      "st = ProxySecured (First (First f t) (tls, dst_host A dst))"
proof (cases "match_proxy self (destination_dst A dst)")
  case None
  with assms unproxied show ?thesis by (auto simp: proxy_connect_def omap_eq_Ret_iff)
next
  case (Some p)
  obtain q where q: "proxy_dst A display dst (px_uri p) = Ret q"
    using assms Some by (auto simp: proxy_connect_def Let_def obind_eq_Ret_iff split: if_splits)
  show ?thesis
  proof (cases q)
    case (Inl e)
    with assms Some q no_address show ?thesis
      by (auto simp: proxy_connect_def Let_def unwrap_or_future_def obind_eq_Ret_iff split: if_splits)
  next
    case (Inr pdst)
    show ?thesis
    proof (cases "dst_scheme A dst = lit ''https''")
      case True
      then obtain t f where "tunnel_new D (dst_host A dst) (tunnel_port A dst) (px_headers p) = Ret t"
        "connect (pc_connector self) pdst = Ret f"
        "(case pc_tls self of
            Some tls \<Rightarrow> Ret (ProxySecured (First (First f t) (tls, dst_host A dst)))
          | None \<Rightarrow> Ret (ProxyTunnel (First f t))) = Ret st"
        using assms Some q Inr
        by (auto simp: proxy_connect_def tunnel_port_def Let_def unwrap_or_future_def obind_eq_Ret_iff)
      with Some q Inr True tunnelled secured show ?thesis by (auto split: option.splits)
    next
      case False
      with assms Some q Inr forwarded show ?thesis
        by (auto simp: proxy_connect_def unwrap_or_future_def omap_eq_Ret_iff)
    qed
  qed
qed

section \<open>Runs through a tunnel\<close>

lemma tunnel_run_sent:
  assumes "run_polls (tunnel_step C) envs (with_stream t io c) = Ret (Ok (Ready (io', c')), self')"
  shows "tn_sent io' = tn_sent io @ tc_buf t"
proof -
  obtain d self0 where *: "tunnel_inv (tc_buf t) (tn_sent io) self0" "tunnel_live self0"
    "tunnel_step C d self0 = Ret (Ok (Ready (io', c')), self')"
    using tun.run_last_poll[OF _ _ assms] with_stream_inv[of t io c] by blast
  from tunnel_step_ok[OF *] show ?thesis by (simp add: loop_ok_def)
qed

lemma tunnel_future_run:
  "run_polls (tunnel_future C tenv) es (t, w) =
     omap (\<lambda>(r, t'). (r, t', w)) (run_polls (tunnel_step C) (map tenv es) t)"
proof (induction es arbitrary: t)
  case (Cons e es)
  then show ?case by (cases "tunnel_step C (tenv e) t") (auto simp: tunnel_future_def)
qed simp

text \<open>A tunnelled stream: the inner connector's stream, on which exactly the head was sent.\<close>

lemma tunnelling_run_Ready:
  assumes "run_polls (tunnelling_poll C tenv msg poll) es (First f t, w) = Ret (Ok (Ready (io', c')), s', w')"
  obtains es1 io c0 f' where "run_polls poll es1 (f, w) = Ret (Ok (Ready (io, c0)), f', w')"
    "tn_sent io' = tn_sent io @ tc_buf t"
proof (rule and_then_run_Ready[OF assms[unfolded tunnelling_poll_def]])
  fix es0 e es1 v a' w1 b w2 b'
  assume *: "run_polls (map_poll id (\<lambda>x. io_err (msg x)) poll) (es0 @ [e]) (f, w) = Ret (Ok (Ready v), a', w1)"
    "(case v of (io, c) \<Rightarrow> \<lambda>w. (with_stream t io c, w)) w1 = (b, w2)"
    "run_polls (tunnel_future C tenv) (e # es1) (b, w2) = Ret (Ok (Ready (io', c')), b', w')"
  obtain io c0 where v: "v = (io, c0)" by fastforce
  have b: "b = with_stream t io c0" "w2 = w1" using *(2) v by simp_all
  have run: "run_polls (tunnel_step C) (map tenv (e # es1)) (with_stream t io c0) = Ret (Ok (Ready (io', c')), b')"
    and w: "w1 = w'"
    using *(3) unfolding b tunnel_future_run by (auto simp: omap_eq_Ret_iff simp del: run_polls.simps)
  have "run_polls poll (es0 @ [e]) (f, w) = Ret (Ok (Ready (io, c0)), a', w')"
    using *(1) v w by (auto simp: map_run omap_eq_Ret_iff map_answer_Ready_iff simp del: run_polls.simps)
  from that[OF this tunnel_run_sent[OF run]] show thesis .
qed

section \<open>The future does not panic\<close>

definition proxy_inv ::
    "('f \<times> 'w \<Rightarrow> bool) \<Rightarrow> bool \<Rightarrow> ('f, 'c, 'tls, 'tf) proxy_connecting \<times> 'w \<Rightarrow> bool" where
  "proxy_inv I J s =
     (case s of
        (ProxyError x, w) \<Rightarrow> True
      | (ProxyDirect f, w) \<Rightarrow> I (f, w)
      | (ProxyTunnel ch, w) \<Rightarrow> chain_pred True I (\<lambda>_. J) (ch, w)
      | (ProxySecured ch, w) \<Rightarrow> chain_pred True (chain_pred True I (\<lambda>_. J)) (\<lambda>_. J) (ch, w))"

definition proxy_live ::
    "('f \<times> 'w \<Rightarrow> bool) \<Rightarrow> ('tf \<times> 'w \<Rightarrow> bool) \<Rightarrow> ('f, 'c, 'tls, 'tf) proxy_connecting \<times> 'w \<Rightarrow> bool" where
  "proxy_live I J s =
     (case s of
        (ProxyError x, w) \<Rightarrow> x \<noteq> None
      | (ProxyDirect f, w) \<Rightarrow> I (f, w)
      | (ProxyTunnel ch, w) \<Rightarrow> chain_pred False I (\<lambda>(t, w). tunnel_live t) (ch, w)
      | (ProxySecured ch, w) \<Rightarrow>
          chain_pred False (chain_pred False I (\<lambda>(t, w). tunnel_live t)) J (ch, w))"

lemmas proxy_state_defs = proxy_inv_def proxy_live_def

text \<open>
  What is documented of \<open>tokio_tls\<close>: a future that it makes can be polled until it completes.
  \<open>tlive\<close> says of a TLS future and the world that it has not completed.
\<close>

definition tokio_tls_ok :: "('tls, 'tf, 'n, 'e, 'w) tokio_tls_api \<Rightarrow> ('tf \<times> 'w \<Rightarrow> bool) \<Rightarrow> bool" where
  "tokio_tls_ok T tlive \<longleftrightarrow>
     (\<forall>tls host io w. tlive (tt_connect T tls host io, w)) \<and>
     (\<forall>e s. tlive s \<longrightarrow> \<not> is_panic (tt_poll T e s)) \<and>
     (\<forall>e s s'. tlive s \<longrightarrow> tt_poll T e s = Ret (Ok NotReady, s') \<longrightarrow> tlive s')"

interpretation tokio_live: live_future "tt_poll T" "\<lambda>_. tokio_tls_ok T tlive" tlive for T tlive
  by unfold_locales (auto simp: tokio_tls_ok_def)

interpretation tunnel_future: live_future "tunnel_future C tenv" "\<lambda>_. J" "\<lambda>(t, w). tunnel_live t" for C tenv J
  by unfold_locales
    (auto simp: tunnel_future_def tunnel_step_panic_iff omap_eq_Ret_iff dest: tunnel_step_live)

text \<open>An inner connector whose futures can be polled until they complete.\<close>

locale proxy_transport = live_connector K inv live usable
  for K :: "('k, 'u, 'f, 'e, 'w, 'x, tunnel_stream \<times> 'c) connect_api" and inv live usable +
  fixes A :: "('u, 's, 'a, 'q) uri_api" and D :: "('hm, 'hn, 'hv, 'cr) hdr_api" and display :: "'u \<Rightarrow> string"
    and T :: "('tls, 'tf, 'n, 'e, 'w) tokio_tls_api" and tlive :: "'tf \<times> 'w \<Rightarrow> bool"
    and C :: "'c connected_api" and tenv :: "'e \<Rightarrow> tunnel_env" and msg :: "'x \<Rightarrow> string"

sublocale proxy_transport \<subseteq> inner: guarded_future "ca_poll K" inv live "tokio_tls_ok T tlive"
  by unfold_locales

sublocale proxy_transport \<subseteq> errs:
  mapped_future "ca_poll K" "\<lambda>s. inv s \<and> tokio_tls_ok T tlive" live id "\<lambda>x. io_err (msg x)"
  by unfold_locales

sublocale proxy_transport \<subseteq> direct:
  mapped_future "ca_poll K" "\<lambda>s. inv s \<and> tokio_tls_ok T tlive" live "\<lambda>(s, c). (Regular s, c)" "\<lambda>x. io_err (msg x)"
  by unfold_locales

sublocale proxy_transport \<subseteq> tunnelling:
  chained_future "map_poll id (\<lambda>x. io_err (msg x)) (ca_poll K)" "\<lambda>s. inv s \<and> tokio_tls_ok T tlive" live
    "tunnel_future C tenv" "\<lambda>_. tokio_tls_ok T tlive" "\<lambda>(t, w). tunnel_live t"
    "\<lambda>tunnel (io, c) w. (with_stream tunnel io c, w)"
  by unfold_locales (auto simp: with_stream_inv split: prod.splits)

sublocale proxy_transport \<subseteq> tunnelled:
  mapped_future "tunnelling_poll C tenv msg (ca_poll K)"
    "chain_pred True (\<lambda>s. inv s \<and> tokio_tls_ok T tlive) (\<lambda>_. tokio_tls_ok T tlive)"
    "chain_pred False live (\<lambda>(t, w). tunnel_live t)" "\<lambda>(s, c). (Regular s, c)" id
  unfolding tunnelling_poll_def by unfold_locales

sublocale proxy_transport \<subseteq> tls_errs: mapped_future "tt_poll T" "\<lambda>_. tokio_tls_ok T tlive" tlive id io_err
  by unfold_locales

sublocale proxy_transport \<subseteq> handshake:
  chained_future "tunnelling_poll C tenv msg (ca_poll K)"
    "chain_pred True (\<lambda>s. inv s \<and> tokio_tls_ok T tlive) (\<lambda>_. tokio_tls_ok T tlive)"
    "chain_pred False live (\<lambda>(t, w). tunnel_live t)" "map_poll id io_err (tt_poll T)"
    "\<lambda>_. tokio_tls_ok T tlive" tlive "\<lambda>(tls, host) (io, c) w. (tt_connect T tls host io, w)"
proof unfold_locales
  fix a and w w1 w2 :: 'w and e v a' d b
  assume *: "chain_pred True (\<lambda>s. inv s \<and> tokio_tls_ok T tlive) (\<lambda>_. tokio_tls_ok T tlive) (a, w)"
    "chain_pred False live (\<lambda>(t, w). tunnel_live t) (a, w)"
    "(case d of (tls, host) \<Rightarrow> \<lambda>(io, c) w. (tt_connect T tls host io, w)) v w1 = (b, w2)"
  then have "tokio_tls_ok T tlive" by (cases a) auto
  with *(3) show "tokio_tls_ok T tlive \<and> tlive (b, w2)" by (auto simp: tokio_tls_ok_def split: prod.splits)
qed

sublocale proxy_transport \<subseteq> secured:
  mapped_future "and_then_poll (tunnelling_poll C tenv msg (ca_poll K))
      (\<lambda>(tls, host) (io, c) w. (tt_connect T tls host io, w)) (map_poll id io_err (tt_poll T))"
    "chain_pred True (chain_pred True (\<lambda>s. inv s \<and> tokio_tls_ok T tlive) (\<lambda>_. tokio_tls_ok T tlive))
      (\<lambda>_. tokio_tls_ok T tlive)"
    "chain_pred False (chain_pred False live (\<lambda>(t, w). tunnel_live t)) tlive"
    "\<lambda>s. (Secured s, connected_proxy C True (connected_new C))" id
  by unfold_locales

sublocale proxy_transport \<subseteq> proxied:
  live_connector "proxy_api A D display C tenv msg T K"
    "proxy_inv (\<lambda>s. inv s \<and> tokio_tls_ok T tlive) (tokio_tls_ok T tlive)" "proxy_live live tlive"
    "\<lambda>w. usable w \<and> tokio_tls_ok T tlive"
proof
  fix s :: "('f, 'c, 'tls, 'tf) proxy_connecting \<times> 'w" and e
  let ?inv = "proxy_inv (\<lambda>s. inv s \<and> tokio_tls_ok T tlive) (tokio_tls_ok T tlive)"
  let ?poll = "ca_poll (proxy_api A D display C tenv msg T K)"
  obtain st w where st: "s = (st, w)" by fastforce
  assume s: "?inv s" "proxy_live live tlive s"
  show "\<not> is_panic (?poll e s)"
    using s st direct.mapped.live_poll[of "(_, w)" e] tunnelled.mapped.live_poll[of "(_, w)" e]
      secured.mapped.live_poll[of "(_, w)" e]
    by (cases st) (auto simp: proxy_state_defs proxy_poll_simps secured_poll_def)
  show "?inv s'" if "?poll e s = Ret (r, s')" for r s'
    using s st that direct.mapped.inv_poll[of "(_, w)" e] tunnelled.mapped.inv_poll[of "(_, w)" e]
      secured.mapped.inv_poll[of "(_, w)" e]
    by (cases st) (auto simp: proxy_state_defs proxy_poll_simps secured_poll_def omap_eq_Ret_iff)
  show "proxy_live live tlive s'" if "?poll e s = Ret (Ok NotReady, s')" for s'
    using s st that direct.mapped.live_pending[of "(_, w)" e] tunnelled.mapped.live_pending[of "(_, w)" e]
      secured.mapped.live_pending[of "(_, w)" e]
    by (cases st)
      (auto simp: proxy_state_defs proxy_poll_simps secured_poll_def omap_eq_Ret_iff simp del: map_poll_pending)
next
  fix w :: 'w and self :: "('hm, 'u, 'k, 'tls) proxy_connector" and dst :: "'u destination"
    and st :: "('f, 'c, 'tls, 'tf) proxy_connecting"
  assume w: "usable w \<and> tokio_tls_ok T tlive"
    and "ca_connect (proxy_api A D display C tenv msg T K) self dst = Ret st"
  then have "proxy_connect A D display (ca_connect K) self dst = Ret st" by simp
  then show "proxy_inv (\<lambda>s. inv s \<and> tokio_tls_ok T tlive) (tokio_tls_ok T tlive) (st, w) \<and>
      proxy_live live tlive (st, w)"
    by (cases rule: proxy_connect_Ret) (use w fresh in \<open>auto simp: proxy_state_defs\<close>)
qed

section \<open>Completion\<close>

text \<open>A TLS library that draws on the patience of the world, see \<open>tls_patient\<close>.\<close>

definition tokio_tls_patient ::
    "('tls, 'tf, 'n, 'e, 'w) tokio_tls_api \<Rightarrow> ('tf \<times> 'w \<Rightarrow> bool) \<Rightarrow> ('w \<Rightarrow> nat) \<Rightarrow> bool" where
  "tokio_tls_patient T tlive patience \<longleftrightarrow> tokio_tls_ok T tlive \<and>
     (\<forall>e s r s'. tlive s \<longrightarrow> tt_poll T e s = Ret (r, s') \<longrightarrow>
        patience (snd s') \<le> patience (snd s) \<and> (r = Ok NotReady \<longrightarrow> patience (snd s') < patience (snd s)))"

interpretation tokio_tls_future:
  patient_future "tt_poll T" "\<lambda>_. tokio_tls_patient T tlive p" tlive "\<lambda>s. p (snd s)" for T tlive p
  by unfold_locales (auto simp: tokio_tls_patient_def tokio_tls_ok_def)

lemma tokio_settles:
  assumes "tokio_tls_patient T tlive patience" and "patience w < length es"
  shows "settles (map_poll id io_err (tt_poll T)) patience es (tt_connect T tls host io, w)"
proof (rule settles_map)
  have "tlive (tt_connect T tls host io, w)" using assms(1) by (simp add: tokio_tls_patient_def tokio_tls_ok_def)
  with tokio_tls_future.run_until_settles[of T tlive patience "(tt_connect T tls host io, w)" es] assms
  show "settles (tt_poll T) patience es (tt_connect T tls host io, w)" by (force simp: settles_def)
qed

lemma tunnelling_settles:
  assumes "settles poll patience es (f, w)"
    and "\<And>io c s'. run_polls poll es (f, w) = Ret (Ok (Ready (io, c)), s') \<Longrightarrow> peer_decides (tc_buf t) io"
  shows "settles (tunnelling_poll C tenv msg poll) patience es (First f t, w)"
  unfolding tunnelling_poll_def
proof (rule settles_and_then[OF settles_map[OF assms(1)]])
  fix v a' w1 es' b w2
  assume run: "run_until (map_poll id (\<lambda>x. io_err (msg x)) poll) es (f, w) = Ret ((Ok (Ready v), a', w1), es')"
    and left: "patience w1 < length es'" and k: "(case v of (io, c) \<Rightarrow> \<lambda>w. (with_stream t io c, w)) w1 = (b, w2)"
  obtain io c where v: "v = (io, c)" by fastforce
  with run have "run_polls poll es (f, w) = Ret (Ok (Ready (io, c)), a', w1)"
    by (auto simp: map_until run_polls_until omap_eq_Ret_iff map_answer_Ready_iff)
  note decides = assms(2)[OF this]
  have "\<exists>r t'. tunnel_future C tenv e (with_stream t io c, w1) = Ret (r, t', w1) \<and> r \<noteq> Ok NotReady" for e
    using tunnel_decides_at_once[OF decides, of C "tenv e" c] by (auto simp: tunnel_future_def)
  with left k v show "settles (tunnel_future C tenv) patience es' (b, w2)"
    by (auto intro!: settles_at_once)
qed

text \<open>
  What completion needs: \<open>connect\<close> does not panic, the TLS library is patient, the inner
  connector can be used for whatever destination it is given, and the peers it finds decide
  about a tunnel.
\<close>

definition proxy_usable ::
    "('u, 's, 'a, 'q) uri_api \<Rightarrow> ('hm, 'hn, 'hv, 'cr) hdr_api \<Rightarrow> ('u \<Rightarrow> string) \<Rightarrow>
     ('tls, 'tf, 'n, 'e, 'w) tokio_tls_api \<Rightarrow> ('tf \<times> 'w \<Rightarrow> bool) \<Rightarrow> ('w \<Rightarrow> nat) \<Rightarrow>
     ('k, 'u, 'f, 'e, 'w, 'x, tunnel_stream \<times> 'c) connect_api \<Rightarrow> ('k \<Rightarrow> 'u destination \<Rightarrow> 'w \<Rightarrow> bool) \<Rightarrow>
     ('hm, 'u, 'k, 'tls) proxy_connector \<Rightarrow> 'u destination \<Rightarrow> 'w \<Rightarrow> bool" where
  "proxy_usable A D display T tlive patience K usable self dst w \<longleftrightarrow>
     proxy_ready A D display self dst \<and> tokio_tls_patient T tlive patience \<and>
     (\<forall>d. usable (pc_connector self) d w) \<and>
     (\<forall>p t d es io c s'. match_proxy self (destination_dst A dst) = Some p \<longrightarrow>
        tunnel_new D (dst_host A dst) (tunnel_port A dst) (px_headers p) = Ret t \<longrightarrow>
        connect_run K (pc_connector self) d es w = Ret (Ok (Ready (io, c)), s') \<longrightarrow> peer_decides (tc_buf t) io)"

locale proxy_settling = settling_connector K patience usable
  for K :: "('k, 'u, 'f, 'e, 'w, 'x, tunnel_stream \<times> 'c) connect_api" and patience usable +
  fixes A :: "('u, 's, 'a, 'q) uri_api" and D :: "('hm, 'hn, 'hv, 'cr) hdr_api" and display :: "'u \<Rightarrow> string"
    and T :: "('tls, 'tf, 'n, 'e, 'w) tokio_tls_api" and tlive :: "'tf \<times> 'w \<Rightarrow> bool"
    and C :: "'c connected_api" and tenv :: "'e \<Rightarrow> tunnel_env" and msg :: "'x \<Rightarrow> string"
begin

lemma proxied_settles:
  assumes "proxy_usable A D display T tlive patience K usable self dst w" and "patience w < length es"
    and "proxy_connect A D display (ca_connect K) self dst = Ret st"
  shows "settles (proxy_poll C tenv msg T (ca_poll K)) patience es (st, w)"
proof -
  have inner: "settles (ca_poll K) patience es (f, w)" if "ca_connect K (pc_connector self) d = Ret f" for d f
    using settled[of "pc_connector self" d w es] assms that by (auto simp: proxy_usable_def connect_settles_def)
  have tunnel: "settles (tunnelling_poll C tenv msg (ca_poll K)) patience es (First f t, w)"
    if "ca_connect K (pc_connector self) d = Ret f" "match_proxy self (destination_dst A dst) = Some p"
      "tunnel_new D (dst_host A dst) (tunnel_port A dst) (px_headers p) = Ret t" for d f p t
  proof (rule tunnelling_settles[OF inner[OF that(1)]])
    fix io c s'
    assume "run_polls (ca_poll K) es (f, w) = Ret (Ok (Ready (io, c)), s')"
    with that(1) have "connect_run K (pc_connector self) d es w = Ret (Ok (Ready (io, c)), s')"
      by (simp add: connect_run_def)
    with assms(1) that(2,3) show "peer_decides (tc_buf t) io" unfolding proxy_usable_def by blast
  qed
  have tls: "tokio_tls_patient T tlive patience" using assms(1) by (simp add: proxy_usable_def)
  from assms(3) show ?thesis
  proof (cases rule: proxy_connect_Ret)
    case (no_address p e)
    with assms(2) show ?thesis by (auto intro!: settles_at_once simp: proxy_poll_simps)
  next
    case (secured p t pdst f tls)
    have "settles (and_then_poll (tunnelling_poll C tenv msg (ca_poll K))
        (\<lambda>(tls, host) (io, c) w. (tt_connect T tls host io, w)) (map_poll id io_err (tt_poll T))) patience es
        (First (First f t) (tls, dst_host A dst), w)"
      by (rule settles_and_then[OF tunnel[OF secured(5,1,3)]])
        (auto simp: tokio_settles[OF \<open>tokio_tls_patient T tlive patience\<close>] split: prod.splits)
    then show ?thesis
      unfolding secured(7) by (intro proxy_settles(3)) (simp add: secured_poll_def settles_map)
  qed (auto intro!: proxy_settles settles_map inner tunnel)
qed

end

sublocale proxy_settling \<subseteq> proxied:
  settling_connector "proxy_api A D display C tenv msg T K" patience
    "proxy_usable A D display T tlive patience K usable"
proof
  fix self :: "('hm, 'u, 'k, 'tls) proxy_connector" and dst w and es :: "'e list"
  assume ok: "proxy_usable A D display T tlive patience K usable self dst w" and es: "patience w < length es"
  have "\<not> is_panic (ca_connect K (pc_connector self) d)" for d
    using settled[of "pc_connector self" d w es] ok es by (auto simp: proxy_usable_def connect_settles_def)
  then have "\<not> is_panic (proxy_connect A D display (ca_connect K) self dst :: ('f, 'c, 'tls, 'tf) proxy_connecting outcome)"
    by (intro proxy_connect_panic) (use ok in \<open>auto simp: proxy_usable_def\<close>)
  then obtain st :: "('f, 'c, 'tls, 'tf) proxy_connecting"
    where "proxy_connect A D display (ca_connect K) self dst = Ret st"
    by (auto simp: not_is_panic_iff)
  with proxied_settles[OF ok es] show "connect_settles (proxy_api A D display C tenv msg T K) patience self dst es w"
    by (auto simp: connect_settles_def)
qed

section \<open>Only destinations with a host are served\<close>

lemma proxied_run_direct:
  assumes "run_polls (proxy_poll C tenv msg T poll) es (ProxyDirect f, w) = Ret (Ok (Ready (stream, c)), s')"
  obtains io f' where "stream = Regular io" "run_polls poll es (f, w) = Ret (Ok (Ready (io, c)), f', snd s')"
  using assms by (auto simp: proxy_runs map_run omap_eq_Ret_iff map_answer_Ready_iff)

locale proxy_serving = serving_connector A K ok
  for A :: "('u, 's, 'a, 'q) uri_api" and K :: "('k, 'u, 'f, 'e, 'w, 'x, tunnel_stream \<times> 'c) connect_api" and ok +
  fixes D :: "('hm, 'hn, 'hv, 'cr) hdr_api" and display :: "'u \<Rightarrow> string"
    and T :: "('tls, 'tf, 'n, 'e, 'w) tokio_tls_api"
    and C :: "'c connected_api" and tenv :: "'e \<Rightarrow> tunnel_env" and msg :: "'x \<Rightarrow> string"

sublocale proxy_serving \<subseteq> proxied:
  serving_connector A "proxy_api A D display C tenv msg T K" "ok \<and> uri_api_ok A \<and> scheme_needs_authority A"
proof
  fix self :: "('hm, 'u, 'k, 'tls) proxy_connector" and dst es w x and s' :: "('f, 'c, 'tls, 'tf) proxy_connecting \<times> 'w"
  assume A: "ok \<and> uri_api_ok A \<and> scheme_needs_authority A"
    and "connect_run (proxy_api A D display C tenv msg T K) self dst es w = Ret (Ok (Ready x), s')"
  then obtain st :: "('f, 'c, 'tls, 'tf) proxy_connecting"
    where st: "proxy_connect A D display (ca_connect K) self dst = Ret st"
    and run: "run_polls (proxy_poll C tenv msg T (ca_poll K)) es (st, w) = Ret (Ok (Ready (fst x, snd x)), s')"
    by (auto simp: connect_run_Ret)
  note rewritten = proxy_dst_host[of A display dst]
  from st show "uri_host A (dst_uri dst) \<noteq> None"
  proof (cases rule: proxy_connect_Ret)
    case (unproxied f)
    from run[unfolded unproxied(3)] show ?thesis
    proof (rule proxied_run_direct)
      fix io f'
      assume "run_polls (ca_poll K) es (f, w) = Ret (Ok (Ready (io, snd x)), f', snd s')"
      with unproxied(2) have "connect_run K (pc_connector self) dst es w = Ret (Ok (Ready (io, snd x)), f', snd s')"
        by (simp add: connect_run_def)
      with A served show ?thesis by blast
    qed
  next
    case (no_address p e)
    with run show ?thesis by (cases es) (auto simp: proxy_poll_simps)
  qed (use A rewritten in blast)+
qed

section \<open>Over the TLS connector and the HTTP connector\<close>

text \<open>
  The stack of three connectors: \<open>wire\<close> is what the peer of each inner stream does, and a poll has
  an environment for the inner connectors and one for the tunnel.
\<close>

abbreviation inner_stack ::
    "('u, 's, 'a, 'q) uri_api \<Rightarrow> ('k, nat, 'n, 'm, 'nw \<times> ares_world) tls_api \<Rightarrow> 'nw net_api \<Rightarrow> (rstr \<Rightarrow> query) \<Rightarrow>
     ((unit http_connector, 'k) https_connector, 'u,
      ((unit, cares_future) http_connecting, 'k, 'n, 'm, 'c) https_connecting, 'c http_env, 'nw \<times> ares_world,
      io_error, (nat, 'n) maybe_https_stream \<times> 'c) connect_api" where
  "inner_stack A T N query_a \<equiv> https_api A T (http_api A (lift_net N) (ares_api query_a))"

abbreviation stack_inv where "stack_inv \<equiv> https_inv (\<lambda>s. ares_inv (snd (snd s)))"
abbreviation stack_live where "stack_live \<equiv> https_live (\<lambda>s. http_live cares_future_live (fst s))"

interpretation ares_wired:
  wired_connector "inner_stack A T N query_a" stack_inv stack_live "\<lambda>w. ares_inv (snd w)" wire
    "fst :: 'c http_env \<times> tunnel_env \<Rightarrow> 'c http_env"
  for wire :: "(nat, 'b) maybe_https_stream \<Rightarrow> tunnel_stream" and A :: "('u, 's, 'a, 'q) uri_api"
    and T :: "('k, nat, 'b, 'm, 'n \<times> ares_world) tls_api" and N :: "'n net_api" and query_a
  by unfold_locales

interpretation ares_proxy:
  proxy_transport "wired_api wire (fst :: 'c http_env \<times> tunnel_env \<Rightarrow> 'c http_env) (inner_stack A T N query_a)"
    stack_inv stack_live "\<lambda>w. ares_inv (snd w)" A D display TT tlive C snd msg
  for wire :: "(nat, 'b) maybe_https_stream \<Rightarrow> tunnel_stream" and A :: "('u, 's, 'a, 'q) uri_api"
    and T :: "('k, nat, 'b, 'm, 'n \<times> ares_world) tls_api" and N :: "'n net_api" and query_a
    and D :: "('hm, 'hn, 'hv, 'cr) hdr_api" and display :: "'u \<Rightarrow> string"
    and TT :: "('tls, 'tf, 'x, 'c http_env \<times> tunnel_env, 'n \<times> ares_world) tokio_tls_api"
    and tlive :: "'tf \<times> 'n \<times> ares_world \<Rightarrow> bool" and C :: "'c connected_api" and msg :: "io_error \<Rightarrow> string"
  by unfold_locales

interpretation ares_wired_settling:
  wired_settling "inner_stack A T N query_a" "ares_patience p T0"
    "\<lambda>self dst w. (ares_inv (snd w) \<and> answers_from T0 (snd w) \<and> net_patient N p) \<and> tls_patient T (ares_patience p T0)"
    wire "fst :: 'c http_env \<times> tunnel_env \<Rightarrow> 'c http_env"
  for wire :: "(nat, 'b) maybe_https_stream \<Rightarrow> tunnel_stream" and A :: "('u, 's, 'a, 'q) uri_api"
    and T :: "('k, nat, 'b, 'm, 'n \<times> ares_world) tls_api" and N :: "'n net_api" and query_a
    and p :: "'n \<Rightarrow> nat" and T0 :: nat
  by unfold_locales

interpretation ares_proxy_settling:
  proxy_settling "wired_api wire (fst :: 'c http_env \<times> tunnel_env \<Rightarrow> 'c http_env) (inner_stack A T N query_a)"
    "ares_patience p T0"
    "\<lambda>self dst w. (ares_inv (snd w) \<and> answers_from T0 (snd w) \<and> net_patient N p) \<and> tls_patient T (ares_patience p T0)"
    A D display TT tlive C snd msg
  for wire :: "(nat, 'b) maybe_https_stream \<Rightarrow> tunnel_stream" and A :: "('u, 's, 'a, 'q) uri_api"
    and T :: "('k, nat, 'b, 'm, 'n \<times> ares_world) tls_api" and N :: "'n net_api" and query_a
    and D :: "('hm, 'hn, 'hv, 'cr) hdr_api" and display :: "'u \<Rightarrow> string"
    and TT :: "('tls, 'tf, 'x, 'c http_env \<times> tunnel_env, 'n \<times> ares_world) tokio_tls_api"
    and tlive :: "'tf \<times> 'n \<times> ares_world \<Rightarrow> bool" and C :: "'c connected_api" and msg :: "io_error \<Rightarrow> string"
    and p :: "'n \<Rightarrow> nat" and T0 :: nat
  by unfold_locales

interpretation ares_wired_serving:
  wired_serving A "inner_stack A T N query_a" True wire "fst :: 'c http_env \<times> tunnel_env \<Rightarrow> 'c http_env"
  for wire :: "(nat, 'b) maybe_https_stream \<Rightarrow> tunnel_stream" and A :: "('u, 's, 'a, 'q) uri_api"
    and T :: "('k, nat, 'b, 'm, 'n \<times> ares_world) tls_api" and N :: "'n net_api" and query_a
  by unfold_locales

interpretation ares_proxy_serving:
  proxy_serving A "wired_api wire (fst :: 'c http_env \<times> tunnel_env \<Rightarrow> 'c http_env) (inner_stack A T N query_a)" True
    D display TT C snd msg
  for wire :: "(nat, 'b) maybe_https_stream \<Rightarrow> tunnel_stream" and A :: "('u, 's, 'a, 'q) uri_api"
    and T :: "('k, nat, 'b, 'm, 'n \<times> ares_world) tls_api" and N :: "'n net_api" and query_a
    and D :: "('hm, 'hn, 'hv, 'cr) hdr_api" and display :: "'u \<Rightarrow> string"
    and TT :: "('tls, 'tf, 'x, 'c http_env \<times> tunnel_env, 'n \<times> ares_world) tokio_tls_api"
    and C :: "'c connected_api" and msg :: "io_error \<Rightarrow> string"
  by unfold_locales

section \<open>Which stream is returned\<close>

primrec is_secured :: "('t, 'n) proxy_stream \<Rightarrow> bool" where
  "is_secured (Regular s) = False"
| "is_secured (Secured n) = True"

text \<open>What a run of the secured chain was made of.\<close>

lemma secured_run_Ready:
  fixes es :: "'e list"
  assumes "run_polls (secured_poll C tenv msg T poll) es (First (First f t) (tls, host), w) =
      Ret (Ok (Ready (stream, c)), s', w')"
  obtains es1 io c0 f' w1 io' n es2 tf where "run_polls poll (es1 :: 'e list) (f, w) = Ret (Ok (Ready (io, c0)), f', w1)"
    "tn_sent io' = tn_sent io @ tc_buf t"
    "run_polls (tt_poll T) (es2 :: 'e list) (tt_connect T tls host io', w1) = Ret (Ok (Ready n), tf, w')"
    "stream = Secured n"
proof -
  obtain ch n where st: "stream = Secured n"
    "run_polls (and_then_poll (tunnelling_poll C tenv msg poll)
       (\<lambda>(tls, host) (io, c) w. (tt_connect T tls host io, w)) (map_poll id io_err (tt_poll T))) es
       (First (First f t) (tls, host), w) = Ret (Ok (Ready n), ch, w')"
    using assms by (auto simp: secured_poll_def map_run omap_eq_Ret_iff map_answer_Ready_iff)
  show thesis
  proof (rule and_then_run_Ready[OF st(2)])
    fix es0 e es1 v a' w1 b w2 b'
    assume *: "run_polls (tunnelling_poll C tenv msg poll) (es0 @ [e]) (First f t, w) = Ret (Ok (Ready v), a', w1)"
      "(case (tls, host) of (tls, host) \<Rightarrow> \<lambda>(io, c) w. (tt_connect T tls host io, w)) v w1 = (b, w2)"
      "run_polls (map_poll id io_err (tt_poll T)) (e # es1) (b, w2) = Ret (Ok (Ready n), b', w')"
    obtain io' c' where v: "v = (io', c')" by fastforce
    have tls: "run_polls (tt_poll T) (e # es1) (tt_connect T tls host io', w1) = Ret (Ok (Ready n), b', w')"
      using *(2,3) v by (auto simp: map_run omap_eq_Ret_iff map_answer_Ready_iff simp del: run_polls.simps)
    from *(1)[unfolded v] show thesis
      by (rule tunnelling_run_Ready) (rule that[OF _ _ tls st(1)])
  qed
qed

lemma proxied_stream_kind:
  assumes "connect_run (proxy_api A D display C tenv msg T K) self dst es w = Ret (Ok (Ready (stream, c)), s')"
  shows "is_secured stream \<longleftrightarrow>
    match_proxy self (destination_dst A dst) \<noteq> None \<and> dst_scheme A dst = lit ''https'' \<and> pc_tls self \<noteq> None"
proof -
  obtain st where st: "proxy_connect A D display (ca_connect K) self dst = Ret st"
    and run: "run_polls (proxy_poll C tenv msg T (ca_poll K)) es (st, w) = Ret (Ok (Ready (stream, c)), s')"
    using assms by (auto simp: connect_run_Ret)
  from st show ?thesis
  proof (cases rule: proxy_connect_Ret)
    case (no_address p e)
    with run show ?thesis by (cases es) (auto simp: proxy_poll_simps)
  qed (use run in \<open>auto simp: proxy_runs secured_poll_def map_run omap_eq_Ret_iff map_answer_Ready_iff\<close>)
qed

section \<open>Properties\<close>

text \<open>
  (C12) An intercepted \<open>https\<close> connection is tunnelled: when it succeeds, the inner connector was
  asked for the rewritten destination and nothing else, the CONNECT head for the original host
  and port is all that was sent on that stream in the clear, and the caller gets either that
  stream (a connector without TLS) or the TLS stream on top of it, made for the original host.
\<close>

theorem proxy_connect_https_tunnels:
  fixes es :: "'e list"
  assumes "match_proxy self (destination_dst A dst) = Some p" and "dst_scheme A dst = lit ''https''"
    and "connect_run (proxy_api A D display C tenv msg T K) self dst es w = Ret (Ok (Ready (stream, c)), s', w')"
  shows "\<exists>t pdst (es1 :: 'e list) io c0 f w1 io'.
    tunnel_new D (dst_host A dst) (tunnel_port A dst) (px_headers p) = Ret t \<and>
    proxy_dst A display dst (px_uri p) = Ret (Ok pdst) \<and>
    connect_run K (pc_connector self) pdst es1 w = Ret (Ok (Ready (io, c0)), f, w1) \<and>
    tn_sent io' = tn_sent io @ tc_buf t \<and>
    (case pc_tls self of
       None \<Rightarrow> stream = Regular io' \<and> w' = w1
     | Some tls \<Rightarrow> \<exists>n (es2 :: 'e list) tf.
         run_polls (tt_poll T) es2 (tt_connect T tls (dst_host A dst) io', w1) = Ret (Ok (Ready n), tf, w') \<and>
         stream = Secured n)"
proof -
  obtain st where st: "proxy_connect A D display (ca_connect K) self dst = Ret st"
    and run: "run_polls (proxy_poll C tenv msg T (ca_poll K)) es (st, w) = Ret (Ok (Ready (stream, c)), s', w')"
    using assms(3) by (auto simp: connect_run_Ret)
  from st show ?thesis
  proof (cases rule: proxy_connect_Ret)
    case (no_address p e)
    with run show ?thesis by (cases es) (auto simp: proxy_poll_simps)
  next
    case (tunnelled q t pdst f)
    then obtain ch io' where st: "stream = Regular io'"
      "run_polls (tunnelling_poll C tenv msg (ca_poll K)) es (First f t, w) = Ret (Ok (Ready (io', c)), ch, w')"
      using run by (auto simp: proxy_runs map_run omap_eq_Ret_iff map_answer_Ready_iff)
    from st(2) show ?thesis
      by (rule tunnelling_run_Ready) (use tunnelled st(1) assms(1) in \<open>auto simp: connect_run_Ret intro!: exI\<close>)
  next
    case (secured q t pdst f tls)
    with run obtain ch where "run_polls (secured_poll C tenv msg T (ca_poll K)) es
        (First (First f t) (tls, dst_host A dst), w) = Ret (Ok (Ready (stream, c)), ch, w')"
      by (auto simp: proxy_runs omap_eq_Ret_iff)
    then show ?thesis
      by (rule secured_run_Ready) (use secured assms(1) in \<open>auto simp: connect_run_Ret intro!: exI\<close>)
  qed (use assms(1,2) in simp_all)
qed

definition sample_head :: bytes where
  "sample_head = lit ''CONNECT a:443 HTTP/1.1'' @ CRLF @ lit ''Host: a:443'' @ CRLF @ CRLF"

lemma sample_tunnel: "tunnel_new sample_hdr (lit ''a'') 443 (px_headers sample_proxy) = Ret \<lparr>tc_buf = sample_head\<rparr>"
  by code_simp

definition sample_peer :: tunnel_stream where
  "sample_peer = \<lparr>tn_accepts = [Ok 99], tn_arrivals = [Ok sample_reply], tn_sent = []\<rparr>"

lemma sample_tunnel_step:
  "tunnel_step sample_connected ([], []) (with_stream \<lparr>tc_buf = sample_head\<rparr> sample_peer []) =
    Ret (Ok (Ready (\<lparr>tn_accepts = [], tn_arrivals = [], tn_sent = sample_head\<rparr>, [])),
      \<lparr>tu_buf = sample_reply, tu_pos = length sample_head, tu_stream = None, tu_connected = None,
       tu_state = Reading\<rparr>)"
  by code_simp

text \<open>An inner connector that answers at once, and a TLS library that is never asked.\<close>

definition sample_inner :: "(unit, nat, unit, string, tunnel_stream \<times> http_info list) world_poll" where
  "sample_inner e s = Ret (Ok (Ready (sample_peer, [])), s)"

definition sample_tokio :: "(unit, nat, nat, unit, unit) tokio_tls_api" where
  "sample_tokio = \<lparr>tt_connect = (\<lambda>tls host io. 0), tt_poll = (\<lambda>e s. Ret (Ok (Ready 0), s))\<rparr>"

abbreviation sample_https_dst :: "sample_uri destination" where
  "sample_https_dst \<equiv> sample_dst (lit ''https'') (lit ''a'') None"

lemma sample_https_dst_facts:
  "dst_scheme sample_api sample_https_dst = lit ''https''" "dst_host sample_api sample_https_dst = lit ''a''"
  "dst_port sample_api sample_https_dst = None"
  by (simp_all add: dst_defs sample_api_def sample_dst_def)

definition sample_inner_api ::
    "(unit, sample_uri, nat, unit, unit, string, tunnel_stream \<times> http_info list) connect_api" where
  "sample_inner_api = \<lparr>ca_connect = (\<lambda>k d. Ret 0), ca_poll = sample_inner\<rparr>"

lemma sample_proxies_tls: "pc_tls sample_proxies = None"
  by (simp add: sample_proxies_def from_proxy_unsecured_def unsecured_def Let_def)

lemma sample_proxy_run:
  "\<exists>s'. connect_run (proxy_api sample_api sample_hdr (\<lambda>u. ''u'') sample_connected (\<lambda>_. ([], [])) id sample_tokio
      sample_inner_api) sample_proxies sample_https_dst [()] () =
    Ret (Ok (Ready (Regular \<lparr>tn_accepts = [], tn_arrivals = [], tn_sent = sample_head\<rparr>, [])), s', ())"
  by (simp add: connect_run_def proxy_connect_def sample_match sample_https_dst_facts sample_tunnel sample_proxy_dst
      unwrap_or_future_def sample_inner_api_def sample_proxies_tls proxy_poll_simps tunnelling_poll_def sample_inner_def
      map_poll_def tunnel_future_def sample_tunnel_step)

theorem proxy_connect_https_tunnels_witness:
  "\<exists>t pdst (es1 :: unit list) io c0 f w1.
    tunnel_new sample_hdr (lit ''a'') (tunnel_port sample_api sample_https_dst) (px_headers sample_proxy) = Ret t \<and>
    proxy_dst sample_api (\<lambda>u. ''u'') sample_https_dst (px_uri sample_proxy) = Ret (Ok pdst) \<and>
    connect_run sample_inner_api (pc_connector sample_proxies) pdst es1 () = Ret (Ok (Ready (io, c0)), f, w1) \<and>
    sample_head = tn_sent io @ tc_buf t"
proof -
  obtain s' where "connect_run (proxy_api sample_api sample_hdr (\<lambda>u. ''u'') sample_connected (\<lambda>_. ([], [])) id
      sample_tokio sample_inner_api) sample_proxies sample_https_dst [()] () =
    Ret (Ok (Ready (Regular \<lparr>tn_accepts = [], tn_arrivals = [], tn_sent = sample_head\<rparr>, [])), s', ())"
    using sample_proxy_run by blast
  from proxy_connect_https_tunnels[OF sample_match sample_https_dst_facts(1) this] show ?thesis
    by (auto simp: sample_https_dst_facts sample_proxies_tls)
qed

end
