(* ===== verification/Proxied_Exchange.thy ===== *)
theory Proxied_Exchange
  imports Exchange Proxy_Connector
begin

text \<open>
  Requests through proxies: the client over the proxy connector, over the TLS connector, over the
  HTTP connector with the default resolver. The results of theory \<open>Exchange\<close> for any
  connector that keeps its promises apply to this stack, because each layer passes them on.
\<close>

section \<open>The stack of three connectors\<close>

abbreviation proxied_stack ::
    "('u, 's, 'a, 'q) uri_api \<Rightarrow> ('hm, 'hn, 'hv, 'cr) hdr_api \<Rightarrow> ('u \<Rightarrow> string) \<Rightarrow> 'c connected_api \<Rightarrow>
     (io_error \<Rightarrow> string) \<Rightarrow> ('tls, 'tf, 'x, 'c http_env \<times> tunnel_env, 'nw \<times> ares_world) tokio_tls_api \<Rightarrow>
     ((nat, 'n) maybe_https_stream \<Rightarrow> tunnel_stream) \<Rightarrow> ('k, nat, 'n, 'm, 'nw \<times> ares_world) tls_api \<Rightarrow>
     'nw net_api \<Rightarrow> (rstr \<Rightarrow> query) \<Rightarrow> _" where
  "proxied_stack A D display C msg TT wire T N query_a \<equiv>
     proxy_api A D display C snd msg TT (wired_api wire fst (inner_stack A T N query_a))"

interpretation proxied_client:
  safe_client A "proxied_stack A D display C msg TT wire T N query_a"
    "proxy_inv (\<lambda>s. stack_inv s \<and> tokio_tls_ok TT tlive) (tokio_tls_ok TT tlive)" "proxy_live stack_live tlive"
    "\<lambda>w. ares_inv (snd w) \<and> tokio_tls_ok TT tlive" "True \<and> uri_api_ok A \<and> scheme_needs_authority A"
  for wire :: "(nat, 'b) maybe_https_stream \<Rightarrow> tunnel_stream" and A :: "('u, 's, 'a, 'q) uri_api"
    and T :: "('k, nat, 'b, 'm, 'n \<times> ares_world) tls_api" and N :: "'n net_api" and query_a
    and D :: "('hm, 'hn, 'hv, 'cr) hdr_api" and display :: "'u \<Rightarrow> string"
    and TT :: "('tls, 'tf, 'x, 'c http_env \<times> tunnel_env, 'n \<times> ares_world) tokio_tls_api"
    and tlive :: "'tf \<times> 'n \<times> ares_world \<Rightarrow> bool" and C :: "'c connected_api" and msg :: "io_error \<Rightarrow> string"
  by unfold_locales

interpretation proxied_exchange:
  settling_client A "proxied_stack A D display C msg TT wire T N query_a" "ares_patience p T0"
    "proxy_usable A D display TT tlive (ares_patience p T0) (wired_api wire fst (inner_stack A T N query_a))
      (\<lambda>self dst w. (ares_inv (snd w) \<and> answers_from T0 (snd w) \<and> net_patient N p) \<and> tls_patient T (ares_patience p T0))"
    "True \<and> uri_api_ok A \<and> scheme_needs_authority A"
  for wire :: "(nat, 'b) maybe_https_stream \<Rightarrow> tunnel_stream" and A :: "('u, 's, 'a, 'q) uri_api"
    and T :: "('k, nat, 'b, 'm, 'n \<times> ares_world) tls_api" and N :: "'n net_api" and query_a
    and D :: "('hm, 'hn, 'hv, 'cr) hdr_api" and display :: "'u \<Rightarrow> string"
    and TT :: "('tls, 'tf, 'x, 'c http_env \<times> tunnel_env, 'n \<times> ares_world) tokio_tls_api"
    and tlive :: "'tf \<times> 'n \<times> ares_world \<Rightarrow> bool" and C :: "'c connected_api" and msg :: "io_error \<Rightarrow> string"
    and p :: "'n \<Rightarrow> nat" and T0 :: nat
  by unfold_locales

section \<open>A sample stack\<close>

text \<open>An \<open>https\<close> request through the sample proxy, whose peer grants the tunnel at once.\<close>

definition sample_tokio_tls ::
    "(unit, nat, nat, http_info list http_env \<times> tunnel_env, nat io_poll list \<times> ares_world) tokio_tls_api" where
  "sample_tokio_tls = \<lparr>tt_connect = (\<lambda>tls host io. 0), tt_poll = (\<lambda>e s. Ret (Ok (Ready 0), s))\<rparr>"

abbreviation sample_proxied ::
    "(((rstr \<times> rstr) list, sample_uri, (unit http_connector, unit) https_connector, unit) proxy_connector, sample_uri,
      (((unit, cares_future) http_connecting, unit, nat, nat, http_info list) https_connecting, http_info list, unit, nat)
        proxy_connecting,
      http_info list http_env \<times> tunnel_env, nat io_poll list \<times> ares_world, io_error,
      (tunnel_stream, nat) proxy_stream \<times> http_info list) connect_api" where
  "sample_proxied \<equiv> proxied_stack sample_api sample_hdr (\<lambda>u. ''u'') sample_connected (\<lambda>x. ''e'') sample_tokio_tls
     (\<lambda>_. sample_peer) sample_stack_tls sample_stack_net (\<lambda>n. 0)"

definition sample_proxied_client ::
    "((rstr \<times> rstr) list, sample_uri, (unit http_connector, unit) https_connector, unit) proxy_connector client" where
  "sample_proxied_client = client_new (with_connector (default_https ()) sample_proxies)"

definition sample_https_request :: "(rstr, unit, sample_uri, bytes io_result list) request" where
  "sample_https_request = sample_request\<lparr>rq_uri := dst_uri sample_https_dst\<rparr>"

lemma sample_https_request_dst [simp]: "\<lparr>dst_uri = rq_uri sample_https_request\<rparr> = sample_https_dst"
  by (simp add: sample_https_request_def)

lemma sample_proxied_match:
  "match_proxy (cl_inner sample_proxied_client) (destination_dst sample_api sample_https_dst) = Some sample_proxy"
  by (simp add: sample_proxied_client_def client_new_def sample_match)

lemma sample_tunnel_port: "tunnel_port sample_api sample_https_dst = 443"
  by (simp add: tunnel_port_def sample_https_dst_facts)

lemma sample_proxy_ready:
  "proxy_ready sample_api sample_hdr (\<lambda>u. ''u'') (cl_inner sample_proxied_client) sample_https_dst"
  by (simp add: proxy_ready_def sample_proxied_match sample_https_dst_facts sample_tunnel_port sample_tunnel
      sample_proxy_dst)

lemma sample_tokio_tls_patient: "tokio_tls_patient sample_tokio_tls (\<lambda>_. True) q"
  by (simp add: tokio_tls_patient_def tokio_tls_ok_def sample_tokio_tls_def)

lemma sample_peer_decides: "peer_decides sample_head sample_peer"
  by code_simp

definition sample_proxied_polls :: "(http_info list http_env \<times> tunnel_env) list" where
  "sample_proxied_polls = map (\<lambda>e. (e, ([], []))) (concat (replicate 3 sample_polls))"

lemma sample_proxied_starts:
  "ca_connect sample_proxied (cl_inner sample_proxied_client) sample_https_dst =
     omap (\<lambda>f. ProxyTunnel (First f \<lparr>tc_buf = sample_head\<rparr>))
       (ca_connect (inner_stack sample_api sample_stack_tls sample_stack_net (\<lambda>n. 0)) (default_https ())
         (sample_dst (lit ''http'') (lit ''px'') (Some 3128)))"
proof -
  have "pc_tls (cl_inner sample_proxied_client) = None" "pc_connector (cl_inner sample_proxied_client) = default_https ()"
    by (simp_all add: sample_proxied_client_def client_new_def with_connector_def sample_proxies_def
        from_proxy_unsecured_def unsecured_def Let_def add_proxy_def)
  then show ?thesis
    using sample_tunnel_port
    by (simp add: proxy_connect_def sample_proxied_match sample_https_dst_facts sample_tunnel sample_proxy_dst
        unwrap_or_future_def https_connect_def Let_def)
qed

lemma sample_proxied_connects:
  "is_connected (connect_run sample_proxied (cl_inner sample_proxied_client)
     \<lparr>dst_uri = rq_uri sample_https_request\<rparr> sample_proxied_polls ([Ok (Ready 5)], sample_ares))"
  unfolding connect_run_def sample_https_request_dst sample_proxied_starts by code_simp

section \<open>Properties\<close>

text \<open>
  (C17) Everything that can make a request through proxies panic: over all three connectors, with a
  \<open>tokio_tls\<close> whose pending handshakes do not panic, if a request panics, then either \<open>connect\<close> itself could not start, because a header of the proxy is not
  visible text or a rewritten address is not an authority (the negation of \<open>proxy_ready\<close>); or
  c-ares answered some query with an empty list, or such an answer or a poisoned mutex was
  already in the cache; or the parser of the response head panics on what a peer sent. The polls of
  the tunnel and of TLS add no cause. In particular a URI without a host, on which
  \<open>build_req\<close> would panic, is not saved by the host of the proxy: rewriting it fails.
\<close>

theorem proxied_request_panic_causes:
  assumes "is_panic (client_request oc A uni as_str from_u16 uninit
      (proxied_stack A D display C msg TT wire T N query_a) wire2 self req es (net, aw))"
    and "tokio_tls_ok TT tlive" and "uri_api_ok A" and "scheme_needs_authority A"
    and "\<And>n. 100 \<le> unat n \<Longrightarrow> unat n \<le> 599 \<Longrightarrow> from_u16 n \<noteq> None"
  shows "\<not> proxy_ready A D display (cl_inner self) \<lparr>dst_uri = rq_uri req\<rparr> \<or>
    (\<exists>k q. ce_answer (aw_envs aw k) q = Ok (Ready [])) \<or>
    (\<exists>name t. rc_map (aw_cache aw) name = Some ([], t)) \<or> rc_poisoned (aw_cache aw) \<or>
    (\<exists>stream c. arrivals c = arrivals (wire2 stream) \<and> is_panic (read_head oc uni [] c))"
proof (rule ccontr)
  assume none: "\<not> ?thesis"
  then have inv: "ares_inv aw" and ready: "proxy_ready A D display (cl_inner self) \<lparr>dst_uri = rq_uri req\<rparr>"
    by (auto simp: ares_inv_def)
  have "\<not> is_panic (client_request oc A uni as_str from_u16 uninit
      (proxied_stack A D display C msg TT wire T N query_a) wire2 self req es (net, aw))"
  proof (rule proxied_client.client_request_safe[where ?from_u16.0=from_u16 and tlive=tlive])
    show "\<not> is_panic (ca_connect (proxied_stack A D display C msg TT wire T N query_a) (cl_inner self)
        \<lparr>dst_uri = rq_uri req\<rparr>)"
      using ready unfolding proxy_api_simps by (rule proxy_connect_panic) (simp add: https_connect_def Let_def)
  qed (use assms(2-5) inv none in auto)
  with assms(1) show False by contradiction
qed

lemma sample_proxied_panics:
  "is_panic (client_request True sample_api id id (Some :: u16 \<Rightarrow> u16 option) [] sample_proxied (\<lambda>_. sample_reset)
     sample_proxied_client sample_https_request sample_proxied_polls ([Ok (Ready 5)], sample_no_ares))"
  unfolding client_request_def connect_run_def sample_https_request_dst sample_proxied_starts by code_simp

theorem proxied_request_panic_causes_witness:
  "is_panic (client_request True sample_api id id (Some :: u16 \<Rightarrow> u16 option) [] sample_proxied (\<lambda>_. sample_reset)
     sample_proxied_client sample_https_request sample_proxied_polls ([Ok (Ready 5)], sample_no_ares)) \<and>
   (\<exists>k q. ce_answer (aw_envs sample_no_ares k) q = Ok (Ready []))"
proof
  have tls: "tokio_tls_ok sample_tokio_tls (\<lambda>_. True)"
    using sample_tokio_tls_patient by (simp add: tokio_tls_patient_def)
  have ready: "proxy_ready sample_api sample_hdr (\<lambda>u. ''u'') (cl_inner sample_proxied_client)
      \<lparr>dst_uri = rq_uri sample_https_request\<rparr>" by (simp add: sample_proxy_ready)
  show "\<exists>k q. ce_answer (aw_envs sample_no_ares k) q = Ok (Ready [])"
    using proxied_request_panic_causes[where ?from_u16.0="Some :: u16 \<Rightarrow> u16 option", OF sample_proxied_panics tls
        sample_api_ok] ready sample_no_ares_clean sample_reset_head by blast
qed (rule sample_proxied_panics)

text \<open>
  (C3) A request through proxies from end to end: with a patient network, patient TLS libraries, a
  c-ares that answers from some tick on, never with an empty list, proxies that decide about a
  tunnel, and enough polls, a request always comes to an answer. Either connecting failed, and then the request returns that
  error and nothing was sent; or it ran on a stream that is protected on top of the tunnel
  exactly when the destination is \<open>https\<close>, a proxy intercepts it and the connector has a TLS
  library, the peer of that stream received exactly the reference head and the body, and
  the response carries the status, the headers and the complete body of its answer.
\<close>

theorem proxied_exchange_end_to_end:
  fixes C :: "'c connected_api"
  assumes "ares_inv aw" and "answers_from T0 aw" and "net_patient N p" and "tls_patient T (ares_patience p T0)"
    and "tokio_tls_patient TT tlive (ares_patience p T0)" and "uri_api_ok A" and "scheme_needs_authority A"
    and "proxy_ready A D display (cl_inner self) \<lparr>dst_uri = rq_uri req\<rparr>"
    and "\<forall>px t stream. match_proxy (cl_inner self) (destination_dst A \<lparr>dst_uri = rq_uri req\<rparr>) = Some px \<longrightarrow>
      tunnel_new D (dst_host A \<lparr>dst_uri = rq_uri req\<rparr>) (tunnel_port A \<lparr>dst_uri = rq_uri req\<rparr>) (px_headers px) = Ret t \<longrightarrow>
      peer_decides (tc_buf t) (wire stream)"
    and "ares_patience p T0 (net, aw) < length es"
    and "rq_body req = map_option (map Ok) vs"
    and "wf_status version code reason" and "list_all wf_field hs"
    and "length (render_head version code reason hs) \<le> head_capacity"
    and "from_u16 (of_nat code) = Some sc" and "length uninit = 4096"
    and "announced_enough (find_content_length (stored_fields uni hs)) data"
    and "\<forall>stream. (is_secured stream \<longleftrightarrow>
        match_proxy (cl_inner self) (destination_dst A \<lparr>dst_uri = rq_uri req\<rparr>) \<noteq> None \<and>
        dst_scheme A \<lparr>dst_uri = rq_uri req\<rparr> = lit ''https'' \<and> pc_tls (cl_inner self) \<noteq> None) \<longrightarrow>
      peer_serves (length (body_pieces vs)) (render_head version code reason hs @ data) (wire2 stream)"
  shows "(\<exists>e s' w'.
      connect_run (proxied_stack A D display C msg TT wire T N query_a) (cl_inner self) \<lparr>dst_uri = rq_uri req\<rparr> es
        (net, aw) = Ret (Err e, s', w') \<and>
      client_request oc A uni as_str from_u16 uninit
        (proxied_stack A D display C msg TT wire T N query_a) wire2 self req es (net, aw) = Ret (Err e, None, w')) \<or>
    (\<exists>stream host resp c' w'.
      client_request oc A uni as_str from_u16 uninit
        (proxied_stack A D display C msg TT wire T N query_a) wire2 self req es (net, aw) =
        Ret (Ok (Ready resp), Some c', w') \<and>
      (is_secured stream \<longleftrightarrow>
        match_proxy (cl_inner self) (destination_dst A \<lparr>dst_uri = rq_uri req\<rparr>) \<noteq> None \<and>
        dst_scheme A \<lparr>dst_uri = rq_uri req\<rparr> = lit ''https'' \<and> pc_tls (cl_inner self) \<noteq> None) \<and>
      sent c' = request_head A uni (as_str (rq_method req)) host (rq_uri req) (rq_headers req) @
        concat (body_pieces vs) \<and>
      uri_host A (rq_uri req) = Some host \<and> response_status resp = sc \<and>
      (\<forall>name. header_map_get (response_headers resp) name = map_of (stored_fields uni hs) name) \<and>
      (\<forall>fuel. arrival_work (arrivals (wire2 stream)) + 2 < fuel \<longrightarrow>
        (\<exists>b'. read_body oc fuel (into_body resp) = Some (Ret (data, Eof, b')))))"
proof -
  let ?dst = "\<lparr>dst_uri = rq_uri req\<rparr>" and ?stack = "proxied_stack A D display C msg TT wire T N query_a"
  have decides: "peer_decides (tc_buf t) io"
    if "match_proxy (cl_inner self) (destination_dst A ?dst) = Some px"
      "tunnel_new D (dst_host A ?dst) (tunnel_port A ?dst) (px_headers px) = Ret t"
      "connect_run (wired_api wire fst (inner_stack A T N query_a)) (pc_connector (cl_inner self)) d es (net, aw) =
        Ret (Ok (Ready (io, c)), s')"
    for px t d and es :: "('c http_env \<times> tunnel_env) list" and io c s'
    by (rule wired_run_Ready[OF that(3)]) (simp add: assms(9)[rule_format, OF that(1,2)])
  have usable: "proxy_usable A D display TT tlive (ares_patience p T0) (wired_api wire fst (inner_stack A T N query_a))
      (\<lambda>self dst w. (ares_inv (snd w) \<and> answers_from T0 (snd w) \<and> net_patient N p) \<and> tls_patient T (ares_patience p T0))
      (cl_inner self) ?dst (net, aw)"
    unfolding proxy_usable_def using assms(1-5,8) decides by simp
  have peer: "\<forall>stream k s'. connect_run ?stack (cl_inner self) ?dst es (net, aw) = Ret (Ok (Ready (stream, k)), s') \<longrightarrow>
      peer_serves (length (body_pieces vs)) (render_head version code reason hs @ data) (wire2 stream)"
    by (intro allI impI assms(18)[rule_format]) (rule proxied_stream_kind)
  have ok: "True \<and> uri_api_ok A \<and> scheme_needs_authority A" using assms(6,7) by simp
  show ?thesis
  proof (cases rule: proxied_exchange.client_exchange[where oc=oc and as_str=as_str
        and ?from_u16.0=from_u16 and uni=uni and wire=wire2 and w="(net, aw)", OF ok usable assms(10-17) peer,
        case_names failed answered])
    case (answered stream k s' w' host resp c')
    with proxied_stream_kind[OF answered(1)] show ?thesis
      by (intro disjI2 exI[of _ stream] exI[of _ host] exI[of _ resp] exI[of _ c'] exI[of _ w'] conjI)
  qed blast+
qed

definition sample_proxied_call ::
    "((u16, body) response io_poll \<times> conn option \<times> nat io_poll list \<times> ares_world) outcome" where
  "sample_proxied_call =
     client_request True sample_api id id Some (replicate 4096 0) sample_proxied (\<lambda>_. sample_exchange)
       sample_proxied_client sample_https_request sample_proxied_polls ([Ok (Ready 5)], sample_ares)"

theorem proxied_exchange_end_to_end_witness:
  "\<exists>resp c' w'. sample_proxied_call = Ret (Ok (Ready resp), Some c', w') \<and> response_status resp = 200"
proof -
  have b: "rq_body sample_https_request = map_option (map Ok) (Some [lit ''q''])"
    by (simp add: sample_https_request_def sample_request_def)
  have cap: "length (render_head (lit ''1.1'') 200 (lit ''OK'') sample_fields) \<le> head_capacity"
    using sample_head_facts(3) by (simp add: head_capacity_def sample_response_head_def)
  have pat: "ares_patience length 0 ([Ok (Ready 5) :: nat io_poll], sample_ares) < length sample_proxied_polls"
    by (simp add: ares_patience_def sample_proxied_polls_def sample_polls_def eval_nat_numeral)
  have ann: "announced_enough (find_content_length (stored_fields id sample_fields)) (lit ''hey'')"
    by (simp add: sample_content_length announced_enough_def)
  have serves: "peer_serves (length (body_pieces (Some [lit ''q''])))
      (render_head (lit ''1.1'') 200 (lit ''OK'') sample_fields @ lit ''hey'') sample_exchange"
    using sample_peer_serves by (simp add: body_pieces_def sample_response_head_def)
  have decides: "\<forall>px t (stream :: (nat, nat) maybe_https_stream). match_proxy (cl_inner sample_proxied_client)
        (destination_dst sample_api \<lparr>dst_uri = rq_uri sample_https_request\<rparr>) = Some px \<longrightarrow>
      tunnel_new sample_hdr (dst_host sample_api \<lparr>dst_uri = rq_uri sample_https_request\<rparr>)
        (tunnel_port sample_api \<lparr>dst_uri = rq_uri sample_https_request\<rparr>) (px_headers px) = Ret t \<longrightarrow>
      peer_decides (tc_buf t) ((\<lambda>_. sample_peer) stream)"
    using sample_peer_decides
    by (auto simp: sample_proxied_match sample_https_dst_facts sample_tunnel_port sample_tunnel)
  have ready: "proxy_ready sample_api sample_hdr (\<lambda>u. ''u'') (cl_inner sample_proxied_client)
      \<lparr>dst_uri = rq_uri sample_https_request\<rparr>" by (simp add: sample_proxy_ready)
  show ?thesis
    using proxied_exchange_end_to_end[where ?from_u16.0="Some :: u16 \<Rightarrow> u16 option" and sc=200
        and uninit="replicate 4096 0" and uni=id and data="lit ''hey''" and ?wire2.0="\<lambda>_. sample_exchange"
        and oc=True and as_str=id and C=sample_connected and msg="\<lambda>x. ''e''" and query_a="\<lambda>n. 0",
        OF sample_ares_facts sample_stack_patient sample_tokio_tls_patient[of "ares_patience length 0"] sample_api_ok
          ready decides pat b sample_head_facts(1,2) cap] ann serves sample_proxied_connects
    unfolding sample_proxied_call_def by auto
qed

end
