(* ===== verification/Gai_Connector.thy ===== *)
theory Gai_Connector
  imports Http_States
begin

text \<open>
  The HTTP connector over \<open>TokioThreadpoolGaiResolver\<close> (\<open>src/src/http/dns.rs\<close>), a second
  instance of \<open>connector_env\<close> and \<open>patient_connector\<close>: the connector does not depend on the
  default resolver.
\<close>

section \<open>The resolver\<close>

text \<open>
  The world of the resolver: at each tick of a clock, whether the thread pool lets the closure
  run, and what the system answers to a lookup.
\<close>

record gai_world =
  gw_clock :: nat
  gw_blocking :: "nat \<Rightarrow> string + unit async"
  gw_lookup :: "nat \<Rightarrow> rstr \<Rightarrow> u16 \<Rightarrow> socket_addr list io_result"

definition tokio_gai_api :: "(tokio_gai_resolver, tokio_gai_future, 'n \<times> gai_world) resolver_api" where
  "tokio_gai_api =
     \<lparr>resolve = (\<lambda>r n w. Ret (tokio_gai_resolve r n, w)),
      resolve_poll = (\<lambda>f (net, w).
        Ret (map_sum id (map_async gai_items)
               (tokio_gai_poll (gw_lookup w (gw_clock w)) (gw_blocking w (gw_clock w)) f),
             f, net, w\<lparr>gw_clock := Suc (gw_clock w)\<rparr>))\<rparr>"

text \<open>\<open>getaddrinfo\<close> reports a name without addresses as an error.\<close>

definition gai_inv :: "gai_world \<Rightarrow> bool" where
  "gai_inv w \<longleftrightarrow> (\<forall>k host p. gw_lookup w k host p \<noteq> Ok [])"

text \<open>The thread pool runs closures from tick \<open>T\<close> on.\<close>

definition runs_from :: "nat \<Rightarrow> gai_world \<Rightarrow> bool" where
  "runs_from T w \<longleftrightarrow> (\<forall>k\<ge>T. gw_blocking w k \<noteq> Ok NotReady)"

definition gai_patience :: "('n \<Rightarrow> nat) \<Rightarrow> nat \<Rightarrow> 'n \<times> gai_world \<Rightarrow> nat" where
  "gai_patience p T w = p (fst w) + (T - gw_clock (snd w))"

lemma map_async_NotReady [simp]: "map_async f x = NotReady \<longleftrightarrow> x = NotReady"
  by (cases x) simp_all

lemma tokio_gai_poll_patience:
  assumes "runs_from T w" and "tokio_gai_poll look (gw_blocking w (gw_clock w)) f = Ok NotReady"
  shows "gw_clock w < T"
  using assms
  by (auto simp: tokio_gai_poll_def runs_from_def not_less[symmetric] split: sum.splits async.splits)

interpretation tokio_patient:
  patient_connector "lift_net N" tokio_gai_api
    "\<lambda>w. gai_inv (snd w) \<and> runs_from T (snd w) \<and> net_patient N p" "\<lambda>_. True" "gai_patience p T"
  for N :: "'n net_api" and p and T
proof
  fix w w' :: "'n \<times> gai_world" and f f' and r :: tokio_gai_resolver and a and n and as :: "ip_addr list"
  show "net_keeps (lift_net N) (\<lambda>w. gai_inv (snd w) \<and> runs_from T (snd w) \<and> net_patient N p)"
    by (rule net_keeps_lift)
  assume inv: "gai_inv (snd w) \<and> runs_from T (snd w) \<and> net_patient N p"
  then show "net_patient (lift_net N) (gai_patience p T)"
    unfolding gai_patience_def by (simp add: net_patient_lift[where q="\<lambda>x. T - gw_clock x"])
  show "\<not> is_panic (resolve_poll tokio_gai_api f w)" by (simp add: tokio_gai_api_def split: prod.split)
  show "\<not> is_panic (resolve tokio_gai_api r n w)" by (simp add: tokio_gai_api_def)
  { assume res: "resolve tokio_gai_api r n w = Ret (f, w')"
    with inv show "(gai_inv (snd w') \<and> runs_from T (snd w') \<and> net_patient N p) \<and> True"
      and "gai_patience p T w' \<le> gai_patience p T w" by (simp_all add: tokio_gai_api_def) }
  { assume "resolve_poll tokio_gai_api f w = Ret (Ok (Ready as), f', w')"
    then show "as \<noteq> []"
      using inv by (auto simp: tokio_gai_api_def tokio_gai_poll_def gai_inv_def gai_items_def
          split: prod.splits sum.splits async.splits) }
  assume res: "resolve_poll tokio_gai_api f w = Ret (a, f', w')"
  then show "gai_inv (snd w') \<and> runs_from T (snd w') \<and> net_patient N p"
    using inv by (auto simp: tokio_gai_api_def gai_inv_def runs_from_def split: prod.splits)
  show "gai_patience p T w' \<le> gai_patience p T w \<and> (a = Ok NotReady \<longrightarrow> gai_patience p T w' < gai_patience p T w)"
    using res inv tokio_gai_poll_patience[of T "snd w"]
    by (cases w; cases "tokio_gai_poll (gw_lookup (snd w) (gw_clock (snd w))) (gw_blocking (snd w) (gw_clock (snd w))) f")
      (auto simp: tokio_gai_api_def gai_patience_def diff_less_mono2)
qed simp

interpretation tokio_settling:
  settling_connector "http_api A (lift_net N) tokio_gai_api" "gai_patience p T"
    "\<lambda>self dst w. gai_inv (snd w) \<and> runs_from T (snd w) \<and> net_patient N p"
  for A and N :: "'n net_api" and p T
  by unfold_locales (rule tokio_patient.http_settles)

section \<open>Properties\<close>

text \<open>
  (C25) The connector is correct over the other resolver as well: with the \<open>getaddrinfo\<close> resolver on a
  thread pool that runs closures from some tick on, a patient network and a system that
  reports names without addresses as errors, enough polls bring every connection attempt to a
  stream or an error, without a panic.
\<close>

theorem tokio_connector_completes:
  assumes "gai_inv gw" and "runs_from T gw" and "net_patient N p"
    and "p net + (T - gw_clock gw) < length envs"
  shows "\<exists>r s'. run_polls (http_future (lift_net N) tokio_gai_api) envs
      (http_connect A (connector :: tokio_gai_resolver http_connector) dst, net, gw) = Ret (r, s') \<and>
    r \<noteq> Ok NotReady"
  by (rule tokio_patient.connecting.run_completes[of _ T N p])
    (use assms in \<open>simp_all add: http_connect_live gai_patience_def\<close>)

theorem tokio_connector_completes_witness:
  "\<exists>r s'. run_polls (http_future (lift_net (sample_net\<lparr>connect_poll := (\<lambda>f w. case w of
      [] \<Rightarrow> (Err (IoError Other ''gone''), []) | x # xs \<Rightarrow> (x, xs))\<rparr>)) tokio_gai_api)
      (concat (replicate 4 sample_polls))
      (http_connect sample_api (new_with_resolver tokio_gai_resolver_new) (sample_dst (lit ''http'') (lit ''a'') None),
       [Ok NotReady], \<lparr>gw_clock = 0, gw_blocking = (\<lambda>k. if k < 2 then Ok NotReady else Ok (Ready ())),
         gw_lookup = (\<lambda>k host port. Ok [SocketV4 7 port])\<rparr>) = Ret (r, s') \<and> r \<noteq> Ok NotReady"
  by (rule tokio_connector_completes[OF _ _ sample_net_patient, of _ 2])
    (simp_all add: gai_inv_def runs_from_def sample_polls_def eval_nat_numeral)

end
