(* ===== verification/Text_Output.thy ===== *)
theory Text_Output
  imports Httparse Https_Connector Proxy
begin

text \<open>
  The \<open>Debug\<close> and \<open>Display\<close> implementations of the crate, as functions from a formatter to
  text: \<open>src/src/httparse.rs\<close>, \<open>src/src/http\<close>, \<open>src/src/https\<close>, \<open>src/src/proxy/mod.rs\<close>.
  The parts of \<open>std::fmt\<close> that they use come first, with the width, precision and alternate
  flags of a formatter. The output of a type from another crate is an argument.
\<close>

section \<open>Formatters\<close>

datatype alignment = AlignLeft | AlignRight | AlignCenter

record formatter =
  fm_alternate :: bool
  fm_fill :: rstr
  fm_align :: "alignment option"
  fm_width :: "nat option"
  fm_precision :: "nat option"

type_synonym dbg = "formatter \<Rightarrow> rstr"

text \<open>The formatter of a plain \<open>{}\<close> or \<open>{:?}\<close> inside a \<open>write!\<close>.\<close>

definition plain_formatter :: formatter where
  "plain_formatter =
     \<lparr>fm_alternate = False, fm_fill = lit '' '', fm_align = None, fm_width = None, fm_precision = None\<rparr>"

text \<open>\<open>Formatter::pad\<close> on ASCII text: the precision cuts, the width fills, to the right by default.\<close>

definition fmt_pad :: "rstr \<Rightarrow> dbg" where
  "fmt_pad s f =
     (let s = (case fm_precision f of None \<Rightarrow> s | Some p \<Rightarrow> take p s) in
      case fm_width f of
        None \<Rightarrow> s
      | Some width \<Rightarrow>
          (let n = width - length s; fill = (\<lambda>k. concat (replicate k (fm_fill f))) in
           case fm_align f of
             Some AlignRight \<Rightarrow> fill n @ s
           | Some AlignCenter \<Rightarrow> fill (n div 2) @ s @ fill (Suc n div 2)
           | _ \<Rightarrow> s @ fill n))"

text \<open>The indentation of the alternate form: four spaces at the start of every line.\<close>

fun pad_lines :: "bool \<Rightarrow> rstr \<Rightarrow> rstr" where
  "pad_lines on_newline [] = []"
| "pad_lines on_newline (c # cs) =
     (if on_newline then lit ''    '' else []) @ c # pad_lines (c = LF) cs"

fun join :: "rstr \<Rightarrow> rstr list \<Rightarrow> rstr" where
  "join sep [] = []"
| "join sep [x] = x"
| "join sep (x # y # xs) = x @ sep @ join sep (y # xs)"

text \<open>\<open>debug_struct\<close> with at least one field, \<open>debug_tuple\<close> with at least one field, \<open>debug_list\<close>.\<close>

definition debug_struct :: "rstr \<Rightarrow> (rstr \<times> dbg) list \<Rightarrow> dbg" where
  "debug_struct name flds f =
     (if fm_alternate f then
        name @ lit '' {'' @ [LF] @
        concat (map (\<lambda>(k, v). pad_lines True (k @ lit '': '' @ v f @ lit '','' @ [LF])) flds) @ lit ''}''
      else name @ lit '' { '' @ join (lit '', '') (map (\<lambda>(k, v). k @ lit '': '' @ v f) flds) @ lit '' }'')"

definition debug_tuple :: "rstr \<Rightarrow> dbg list \<Rightarrow> dbg" where
  "debug_tuple name flds f =
     (if fm_alternate f then
        name @ lit ''('' @ [LF] @
        concat (map (\<lambda>v. pad_lines True (v f @ lit '','' @ [LF])) flds) @ lit '')''
      else name @ lit ''('' @ join (lit '', '') (map (\<lambda>v. v f) flds) @ lit '')'')"

definition debug_list :: "dbg list \<Rightarrow> dbg" where
  "debug_list items f =
     (if fm_alternate f \<and> items \<noteq> [] then
        lit ''['' @ [LF] @ concat (map (\<lambda>v. pad_lines True (v f @ lit '','' @ [LF])) items) @ lit '']''
      else lit ''['' @ join (lit '', '') (map (\<lambda>v. v f) items) @ lit '']'')"

definition bool_debug :: "bool \<Rightarrow> dbg" where
  "bool_debug b = fmt_pad (if b then lit ''true'' else lit ''false'')"

text \<open>A byte in decimal; the formatters that reach it here set no width.\<close>

definition byte_debug :: "byte \<Rightarrow> dbg" where
  "byte_debug b f = show_nat (unat b)"

section \<open>The head parser\<close>

text \<open>The derived \<open>Debug\<close> of \<open>ParseError\<close>, and its \<open>Display\<close>, which is that text and a newline.\<close>

definition bytes_debug :: "bytes \<Rightarrow> dbg" where
  "bytes_debug bs = debug_list (map byte_debug bs)"

primrec parse_error_debug :: "parse_error \<Rightarrow> dbg" where
  "parse_error_debug WrongStatusReason = (\<lambda>f. lit ''WrongStatusReason'')"
| "parse_error_debug (WrongStatusHeader bs) = debug_tuple (lit ''WrongStatusHeader'') [bytes_debug bs]"
| "parse_error_debug (WrongStatusCode bs) = debug_tuple (lit ''WrongStatusCode'') [bytes_debug bs]"
| "parse_error_debug (WrongHeader bs) = debug_tuple (lit ''WrongHeader'') [bytes_debug bs]"

definition parse_error_display :: "parse_error \<Rightarrow> dbg" where
  "parse_error_display self f = parse_error_debug self plain_formatter @ [LF]"

section \<open>Resolvers and connectors\<close>

text \<open>\<open>debug_str\<close> is the \<open>Debug\<close> of a string, with its escapes.\<close>

definition name_debug :: "(rstr \<Rightarrow> dbg) \<Rightarrow> name \<Rightarrow> dbg" where
  "name_debug debug_str self = debug_str (name_host self)"

definition gai_resolver_debug :: "'x gai_resolver \<Rightarrow> dbg" where
  "gai_resolver_debug self = fmt_pad (lit ''GaiResolver'')"

definition gai_future_debug :: "'h gai_future \<Rightarrow> dbg" where
  "gai_future_debug self = fmt_pad (lit ''GaiFuture'')"

definition gai_addrs_debug :: "gai_addrs \<Rightarrow> dbg" where
  "gai_addrs_debug self = fmt_pad (lit ''GaiAddrs'')"

definition gai_task_debug :: "'k gai_task \<Rightarrow> dbg" where
  "gai_task_debug self = fmt_pad (lit ''GaiTask'')"

definition http_connecting_debug :: "('r, 'rf) http_connecting \<Rightarrow> dbg" where
  "http_connecting_debug self = fmt_pad (lit ''HttpConnecting'')"

definition https_connecting_debug :: "('f, 'k, 'n, 'm, 'c) https_connecting \<Rightarrow> dbg" where
  "https_connecting_debug self = fmt_pad (lit ''HttpsConnecting'')"

definition https_connector_debug :: "('h \<Rightarrow> dbg) \<Rightarrow> ('h, 'k) https_connector \<Rightarrow> dbg" where
  "https_connector_debug http_debug self =
     debug_struct (lit ''HttpsConnector'')
       [(lit ''force_https'', bool_debug (sc_force_https self)), (lit ''http'', http_debug (sc_http self))]"

definition tls_stream_debug :: "('n \<Rightarrow> dbg) \<Rightarrow> 'n tls_stream \<Rightarrow> dbg" where
  "tls_stream_debug inner_debug self = inner_debug (ts_inner self)"

definition maybe_https_debug :: "('t \<Rightarrow> dbg) \<Rightarrow> ('n \<Rightarrow> dbg) \<Rightarrow> ('t, 'n) maybe_https_stream \<Rightarrow> dbg" where
  "maybe_https_debug t_debug n_debug self =
     (case self of
        Http s \<Rightarrow> debug_tuple (lit ''Http'') [t_debug s]
      | Https s \<Rightarrow> debug_tuple (lit ''Https'') [tls_stream_debug n_debug s])"

section \<open>Proxies\<close>

text \<open>\<open>write!(f, "_")\<close> looks at no flag of the formatter; the others here are derived.\<close>

definition custom_debug :: "custom \<Rightarrow> dbg" where
  "custom_debug self f = lit ''_''"

primrec intercept_debug :: "intercept \<Rightarrow> dbg" where
  "intercept_debug All = (\<lambda>f. lit ''All'')"
| "intercept_debug InterceptHttp = (\<lambda>f. lit ''Http'')"
| "intercept_debug InterceptHttps = (\<lambda>f. lit ''Https'')"
| "intercept_debug InterceptNone = (\<lambda>f. lit ''None'')"
| "intercept_debug (Custom c) = debug_tuple (lit ''Custom'') [custom_debug c]"

definition proxy_debug :: "('hm \<Rightarrow> dbg) \<Rightarrow> ('u \<Rightarrow> dbg) \<Rightarrow> ('hm, 'u) proxy \<Rightarrow> dbg" where
  "proxy_debug headers_debug uri_debug self =
     debug_struct (lit ''Proxy'')
       [(lit ''intercept'', intercept_debug (px_intercept self)),
        (lit ''headers'', headers_debug (px_headers self)), (lit ''uri'', uri_debug (px_uri self))]"

definition proxy_connector_debug ::
    "('hm \<Rightarrow> dbg) \<Rightarrow> ('u \<Rightarrow> dbg) \<Rightarrow> ('k \<Rightarrow> dbg) \<Rightarrow> ('hm, 'u, 'k, 'tls) proxy_connector \<Rightarrow> dbg" where
  "proxy_connector_debug headers_debug uri_debug connector_debug self f =
     lit ''ProxyConnector '' @ (if pc_tls self \<noteq> None then [] else lit ''(unsecured)'') @
     lit ''{ proxies: '' @
     debug_list (map (proxy_debug headers_debug uri_debug) (pc_proxies self)) plain_formatter @
     lit '', connector: '' @ connector_debug (pc_connector self) plain_formatter @ lit '' }''"

section \<open>What the text shows\<close>

text \<open>A list of bytes can be read back from its text.\<close>

abbreviation bytes_text :: "bytes \<Rightarrow> rstr" where
  "bytes_text bs \<equiv> join (lit '', '') (map (\<lambda>b. show_nat (unat b)) bs)"

lemma bytes_debug_plain: "bytes_debug bs plain_formatter = lit ''['' @ bytes_text bs @ lit '']''"
  by (simp add: bytes_debug_def debug_list_def plain_formatter_def byte_debug_def comp_def)

lemma bytes_text_Cons:
  "bytes_text (b # bs) = show_nat (unat b) @ (if bs = [] then [] else lit '', '' @ bytes_text bs)"
  by (cases bs) simp_all

lemma show_nat_inj: "m < usize_size \<Longrightarrow> n < usize_size \<Longrightarrow> show_nat m = show_nat n \<Longrightarrow> m = n"
  by (metis option.inject parse_usize_show)

lemma join_chars: "c \<in> set (join sep xs) \<Longrightarrow> c \<in> set sep \<or> (\<exists>x\<in>set xs. c \<in> set x)"
  by (induction sep xs rule: join.induct) auto

lemma takeWhile_show:
  assumes "case xs of [] \<Rightarrow> True | x # _ \<Rightarrow> \<not> is_digit x"
  shows "takeWhile is_digit (show_nat n @ xs) = show_nat n"
proof -
  have "takeWhile is_digit (show_nat n @ xs) = show_nat n @ takeWhile is_digit xs"
    by (rule takeWhile_append2) (rule show_nat_digits)
  also have "takeWhile is_digit xs = []" using assms by (cases xs) simp_all
  finally show ?thesis by simp
qed

lemma bytes_text_digit: "bs \<noteq> [] \<Longrightarrow> \<exists>c cs. bytes_text bs = c # cs \<and> is_digit c"
proof (cases bs)
  case (Cons b bs')
  obtain c cs where "show_nat (unat b) = c # cs" by (cases "show_nat (unat b)") auto
  with show_nat_digits[of c "unat b"] Cons show ?thesis by (simp add: bytes_text_Cons del: join.simps list.map)
qed simp

lemma show_nat_prefix:
  assumes "show_nat (unat (a :: byte)) @ xs = show_nat (unat (b :: byte)) @ ys"
    and "case xs of [] \<Rightarrow> True | x # _ \<Rightarrow> \<not> is_digit x" and "case ys of [] \<Rightarrow> True | y # _ \<Rightarrow> \<not> is_digit y"
  shows "a = b \<and> xs = ys"
proof -
  have "show_nat (unat a) = show_nat (unat b)"
    using takeWhile_show[OF assms(2)] takeWhile_show[OF assms(3)] assms(1) by metis
  moreover have "unat c < usize_size" for c :: byte
  proof -
    have "unat c < 2 ^ LENGTH(8)" by (rule unsigned_less)
    then show ?thesis by (simp add: usize_size_def)
  qed
  ultimately have "unat a = unat b" using show_nat_inj by blast
  with assms(1) show ?thesis by (simp add: word_unat_eq_iff)
qed

lemma bytes_text_inj: "bytes_text as @ lit '']'' = bytes_text bs @ lit '']'' \<Longrightarrow> as = bs"
proof (induction as arbitrary: bs)
  case Nil
  show ?case
  proof (rule ccontr)
    assume "[] \<noteq> bs"
    with bytes_text_digit[of bs] obtain c cs where "bytes_text bs = c # cs" "is_digit c" by blast
    with Nil show False by (auto simp: lit_def is_digit_def)
  qed
next
  case (Cons a as)
  let ?more = "\<lambda>cs. (if cs = [] then [] else lit '', '' @ bytes_text cs) @ lit '']''"
  have more: "case ?more cs of [] \<Rightarrow> True | x # _ \<Rightarrow> \<not> is_digit x" for cs
    by (simp add: lit_def is_digit_def)
  show ?case
  proof (cases bs)
    case Nil
    with bytes_text_digit[of "a # as"] Cons.prems show ?thesis by (auto simp: lit_def is_digit_def)
  next
    case bs: (Cons b bs')
    with Cons.prems have "show_nat (unat a) @ ?more as = show_nat (unat b) @ ?more bs'"
      by (simp add: bytes_text_Cons del: join.simps list.map)
    from show_nat_prefix[OF this more more] have "a = b" and "?more as = ?more bs'" by blast+
    with bs Cons.IH[of bs'] show ?thesis by (cases "as = []"; cases "bs' = []") (auto simp: lit_def)
  qed
qed

text \<open>The \<open>Display\<close> of a parse error, spelled out.\<close>

fun error_text :: "parse_error \<Rightarrow> rstr" where
  "error_text WrongStatusReason = lit ''WrongStatusReason''"
| "error_text (WrongStatusHeader bs) = lit ''WrongStatusHeader(['' @ bytes_text bs @ lit ''])''"
| "error_text (WrongStatusCode bs) = lit ''WrongStatusCode(['' @ bytes_text bs @ lit ''])''"
| "error_text (WrongHeader bs) = lit ''WrongHeader(['' @ bytes_text bs @ lit ''])''"

lemma parse_error_display_text: "parse_error_display e f = error_text e @ [LF]"
proof -
  have "debug_tuple name [bytes_debug bs] plain_formatter = name @ lit ''(['' @ bytes_text bs @ lit ''])''" for name bs
    by (simp add: debug_tuple_def bytes_debug_plain) (simp add: plain_formatter_def lit_def)
  then show ?thesis
    by (cases e) (simp_all add: parse_error_display_def, simp_all add: lit_def)
qed

lemma bytes_text_eq: "bytes_text as = bytes_text bs \<Longrightarrow> as = bs"
  by (rule bytes_text_inj) simp

lemma error_text_inj: "error_text d = error_text e \<Longrightarrow> d = e"
proof (cases d; cases e)
qed (auto simp: lit_def dest: bytes_text_eq[unfolded lit_def, simplified])

lemma error_text_line: "LF \<notin> set (error_text e)"
proof -
  have "LF \<notin> set (bytes_text bs)" for bs
    by (auto simp: lit_def is_digit_def dest!: join_chars show_nat_digits)
  then show ?thesis by (cases e) (simp_all add: lit_def)
qed

text \<open>A proxy connector without TLS is marked in its text, in every format.\<close>

lemma proxy_connector_debug_mark:
  "take 26 (proxy_connector_debug hd ud cd self f) = lit ''ProxyConnector (unsecured)'' \<longleftrightarrow> pc_tls self = None"
  by (simp add: proxy_connector_debug_def lit_def)

section \<open>Properties\<close>

text \<open>
  The message of a parse error says everything about it: two errors with the same \<open>Display\<close> text
  are the same error with the same bytes, whatever the flags of the formatter, and the text is
  one line, ended by the only newline in it.
\<close>

theorem parse_error_display_faithful:
  "inj (\<lambda>e. parse_error_display e f) \<and>
   (\<exists>line. parse_error_display e f = line @ [LF] \<and> LF \<notin> set line)"
  using error_text_line[of e] by (auto simp: parse_error_display_text inj_def dest: error_text_inj)

end
