(* ===== verification/Example_Program.thy ===== *)
theory Example_Program
  imports Exchange
begin

text \<open>
  The program of \<open>src/examples/simple.rs\<close>: it fetches one page with a client over the stack of
  \<open>HttpsConnector::new\<close> and prints the status and the body. A run gives the text on the
  standard output and how it ended, so that what was printed before a panic is not lost. The
  \<open>Debug\<close> of a string is the one of the standard library; the escapes of characters other
  than printable ASCII, tab, carriage return and line feed come from its Unicode tables and are the
  argument \<open>esc\<close>.
\<close>

section \<open>The debug output of a string\<close>

definition escape_char :: "(rstr \<Rightarrow> rstr) \<Rightarrow> rstr \<Rightarrow> rstr" where
  "escape_char esc c =
     (if c = [9] then [92, 116]
      else if c = [CR] then [92, 114]
      else if c = [LF] then [92, 110]
      else if c = [34] \<or> c = [92] then 92 # c
      else (case c of
          [b] \<Rightarrow> if 32 \<le> b \<and> b < 127 then c else esc c
        | _ \<Rightarrow> esc c))"

function escape_chars :: "(rstr \<Rightarrow> rstr) \<Rightarrow> rstr \<Rightarrow> rstr" where
  "escape_chars esc s =
     (if s = [] then []
      else (case utf8_step s of (ok, k) \<Rightarrow> escape_char esc (take k s) @ escape_chars esc (drop k s)))"
  by pat_completeness auto
termination
  by (relation "measure (length \<circ> snd)") (auto simp: utf8_step_shrinks)

declare escape_chars.simps [simp del]

definition str_debug :: "(rstr \<Rightarrow> rstr) \<Rightarrow> rstr \<Rightarrow> rstr" where
  "str_debug esc s = [34] @ escape_chars esc s @ [34]"

text \<open>The output of a string stays on one line.\<close>

lemma escape_char_one_line: "(\<And>c. LF \<notin> set (esc c)) \<Longrightarrow> LF \<notin> set (escape_char esc c)"
  by (auto simp: escape_char_def split: list.splits if_splits)

lemma str_debug_one_line:
  assumes "\<And>c. LF \<notin> set (esc c)"
  shows "LF \<notin> set (str_debug esc s)"
proof -
  from assms have "LF \<notin> set (escape_chars esc s)"
  proof (induction esc s rule: escape_chars.induct)
    case (1 esc s)
    then show ?case
      using escape_char_one_line[OF 1(2)] by (subst escape_chars.simps) (auto split: prod.splits)
  qed
  then show ?thesis by (simp add: str_debug_def)
qed

section \<open>The program\<close>

datatype main_end = MainDone | MainPanicked panic | MainWaiting

text \<open>
  \<open>block_on\<close> polls in the environments \<open>es\<close> and waits when they are used up. \<open>channel\<close> is what
  opening the c-ares channel of the shared resolver gives, \<open>build\<close> the
  result of building the TLS library's connector, \<open>parse\<close> the parser of URIs, and \<open>dbg\<close> the
  \<open>Debug\<close> of an error.
\<close>

definition simple_main ::
    "bool \<Rightarrow> ('u, 's, 'a, 'q) uri_api \<Rightarrow> (rstr \<Rightarrow> rstr) \<Rightarrow> ('m \<Rightarrow> rstr) \<Rightarrow> (u16 \<Rightarrow> 'sc option) \<Rightarrow> bytes \<Rightarrow>
     ((unit http_connector, 'k) https_connector, 'u, 'f, 'e, 'w, io_error, 't \<times> 'c) connect_api \<Rightarrow> ('t \<Rightarrow> conn) \<Rightarrow>
     string + 'ch \<Rightarrow> string + 'k \<Rightarrow> (rstr \<Rightarrow> string + 'u) \<Rightarrow> 'v \<Rightarrow> 'm \<Rightarrow> (io_error \<Rightarrow> string) \<Rightarrow> ('sc \<Rightarrow> rstr) \<Rightarrow> (rstr \<Rightarrow> rstr) \<Rightarrow>
     'e list \<Rightarrow> nat \<Rightarrow> 'w \<Rightarrow> rstr \<times> main_end" where
  "simple_main oc A uni as_str from_u16 uninit K wire channel build parse http_10 GET dbg display esc es fuel w =
     (case https_new channel build 4 of
        Panic p \<Rightarrow> ([], MainPanicked p)
      | Ret (Err e) \<Rightarrow> ([], MainPanicked (unwrap_failed e))
      | Ret (Ok connector) \<Rightarrow>
          (let client = client_new connector in
           case parse (lit ''https://www.vrbo.com/781849'') of
             Err e \<Rightarrow> ([], MainPanicked (unwrap_failed e))
           | Ok url \<Rightarrow>
               (let req = request_new http_10 GET url in
                case client_request oc A uni as_str from_u16 uninit K wire client req es w of
                  Panic p \<Rightarrow> ([], MainPanicked p)
                | Ret (Err e, _) \<Rightarrow> ([], MainPanicked (unwrap_failed (dbg e)))
                | Ret (Ok NotReady, _) \<Rightarrow> ([], MainWaiting)
                | Ret (Ok (Ready res), _) \<Rightarrow>
                    (let out = lit ''code '' @ display (response_status res) @ [LF] in
                     case read_body oc fuel (into_body res) of
                       None \<Rightarrow> (out, MainWaiting)
                     | Some (Panic p) \<Rightarrow> (out, MainPanicked p)
                     | Some (Ret (b, Blocked, _)) \<Rightarrow> (out, MainWaiting)
                     | Some (Ret (b, body_end.Failed e, _)) \<Rightarrow> (out, MainPanicked (unwrap_failed (dbg e)))
                     | Some (Ret (b, Eof, _)) \<Rightarrow>
                         (out @ str_debug esc (from_utf8_lossy b) @ [LF], MainDone)))))"

section \<open>Properties\<close>

text \<open>
  (C19) The example prints the page, or says why it cannot: when the TLS library is there, the
  address parses, the network, the TLS library and c-ares come to answers, none of c-ares
  empty, and the server answers over TLS with a well-formed head and a body that its content
  length covers, the program ends in one of three ways. If the c-ares channel cannot be opened, the first use of
  the shared resolver panics, and nothing is printed; if connecting fails, it panics with that error and
  prints nothing; otherwise it prints exactly one line with the status and one line with the body, whatever
  the body contains, and returns from \<open>main\<close>.
\<close>

theorem example_prints_page:
  assumes "parse (lit ''https://www.vrbo.com/781849'') = Ok url" and "dst_scheme A \<lparr>dst_uri = url\<rparr> = lit ''https''"
    and "ares_inv aw" and "answers_from T0 aw" and "net_patient N p" and "tls_patient T (ares_patience p T0)"
    and "ares_patience p T0 (net, aw) < length es"
    and "wf_status version code reason" and "list_all wf_field hs"
    and "length (render_head version code reason hs) \<le> head_capacity"
    and "from_u16 (of_nat code) = Some sc" and "length uninit = 4096"
    and "announced_enough (find_content_length (stored_fields uni hs)) data"
    and "\<And>stream. is_tls stream \<Longrightarrow> peer_serves 0 (render_head version code reason hs @ data) (wire stream) \<and>
      arrival_work (arrivals (wire stream)) + 2 < fuel"
    and "\<And>c. LF \<notin> set (esc c)"
  shows "(\<exists>e. channel = Err e \<and> simple_main oc A uni as_str from_u16 uninit
        (https_api A T (http_api A (lift_net N) (ares_api query_a))) wire channel (Ok tls) parse http_10 GET dbg
        display esc es fuel (net, aw) = ([], MainPanicked (unwrap_failed e))) \<or>
    (\<exists>e s'. connect_run (https_api A T (http_api A (lift_net N) (ares_api query_a))) (default_https tls)
        \<lparr>dst_uri = url\<rparr> es (net, aw) = Ret (Err e, s') \<and>
      simple_main oc A uni as_str from_u16 uninit
        (https_api A T (http_api A (lift_net N) (ares_api query_a))) wire channel (Ok tls) parse http_10 GET dbg
        display esc es fuel (net, aw) = ([], MainPanicked (unwrap_failed (dbg e)))) \<or>
    (\<exists>line. simple_main oc A uni as_str from_u16 uninit
        (https_api A T (http_api A (lift_net N) (ares_api query_a))) wire channel (Ok tls) parse http_10 GET dbg
        display esc es fuel (net, aw) = (lit ''code '' @ display sc @ [LF] @ line @ [LF], MainDone) \<and>
      line = str_debug esc (from_utf8_lossy data) \<and> LF \<notin> set line)"
proof (cases channel)
  case (Inl e)
  then show ?thesis by (simp add: simple_main_def https_new_def https_new_tls_Err)
next
  case (Inr q)
  note main = simple_main_def Inr https_new_def https_new_tls_Ok assms(1)
  let ?K = "https_api A T (http_api A (lift_net N) (ares_api query_a))"
  let ?self = "client_new (default_https tls)" and ?req = "request_new http_10 GET url"
  have uri: "rq_uri ?req = url" and body: "rq_body ?req = map_option (map Ok) (None :: bytes list option)"
    by (simp_all add: request_new_def)
  have usable: "(ares_inv (snd (net, aw)) \<and> answers_from T0 (snd (net, aw)) \<and> net_patient N p) \<and>
      tls_patient T (ares_patience p T0)" using assms(3-6) by simp
  have tls: "is_tls stream"
    if "connect_run ?K (cl_inner ?self) \<lparr>dst_uri = rq_uri ?req\<rparr> es (net, aw) = Ret (Ok (Ready (stream, k)), s')"
    for stream k s' using https_run_tls[OF that] unfolding uri assms(2) by simp
  have peer: "\<forall>stream k s'. connect_run ?K (cl_inner ?self) \<lparr>dst_uri = rq_uri ?req\<rparr> es (net, aw) =
      Ret (Ok (Ready (stream, k)), s') \<longrightarrow>
      peer_serves (length (body_pieces None)) (render_head version code reason hs @ data) (wire stream)"
    unfolding body_pieces_def option.case list.size by (intro allI impI conjunct1[OF assms(14)] tls)
  show ?thesis
  proof (cases rule: ares_exchange.client_exchange[where oc=oc and as_str=as_str
        and ?from_u16.0=from_u16 and uni=uni and wire=wire and w="(net, aw)",
        OF TrueI usable assms(7) body assms(8-13) peer, case_names failed answered])
    case (failed e s' w')
    then show ?thesis by (auto simp: main client_new_def request_new_def)
  next
    case (answered stream k s' w' host resp c')
    obtain b' where "read_body oc fuel (into_body resp) = Some (Ret (data, Eof, b'))"
      using answered(7) assms(14)[OF tls[OF answered(1)]] by blast
    then show ?thesis
      using answered(2,5) str_debug_one_line[OF assms(15)] by (simp add: main)
  qed
qed

definition sample_page :: conn where
  "sample_page = sample_exchange\<lparr>answers := [Ok ()]\<rparr>"

definition sample_main :: "rstr \<times> main_end" where
  "sample_main =
     simple_main True sample_api id id (Some :: u16 \<Rightarrow> u16 option) (replicate 4096 0) sample_stack (\<lambda>_. sample_page)
       (Ok ()) (Ok ()) (\<lambda>s. Ok (dst_uri (sample_dst (lit ''https'') (lit ''www.vrbo.com'') None))) () (lit ''GET'')
       (\<lambda>e. ''e'') (\<lambda>code. lit ''200 OK'') (\<lambda>c. lit ''?'') (concat (replicate 3 sample_polls)) 99
       ([Ok (Ready 5)], sample_ares)"

lemma sample_debug: "str_debug (\<lambda>c. lit ''?'') (from_utf8_lossy (lit ''hey'')) = lit ''\"hey\"''"
  by code_simp

lemma sample_page_connects:
  "is_connected (connect_run sample_stack (default_https ())
     \<lparr>dst_uri = dst_uri (sample_dst (lit ''https'') (lit ''www.vrbo.com'') None)\<rparr>
     (concat (replicate 3 sample_polls)) ([Ok (Ready 5)], sample_ares))"
  by code_simp

theorem example_prints_page_witness:
  "sample_main = (lit ''code 200 OK'' @ [LF] @ lit ''\"hey\"'' @ [LF], MainDone)"
proof -
  have cap: "length (render_head (lit ''1.1'') 200 (lit ''OK'') sample_fields) \<le> head_capacity"
    using sample_head_facts(3) by (simp add: head_capacity_def sample_response_head_def)
  have pat: "ares_patience length 0 ([Ok (Ready 5) :: nat io_poll], sample_ares) < length (concat (replicate 3 sample_polls))"
    by (simp add: ares_patience_def sample_polls_def eval_nat_numeral)
  have ann: "announced_enough (find_content_length (stored_fields id sample_fields)) (lit ''hey'')"
    by (simp add: sample_content_length announced_enough_def)
  have serves: "peer_serves 0 (render_head (lit ''1.1'') 200 (lit ''OK'') sample_fields @ lit ''hey'') sample_page \<and>
      arrival_work (arrivals sample_page) + 2 < 99"
    using sample_peer_serves sample_head_facts(3)
    by (simp add: peer_serves_def sample_page_def sample_exchange_def sample_response_head_def)
  have https: "dst_scheme sample_api \<lparr>dst_uri = dst_uri (sample_dst (lit ''https'') (lit ''www.vrbo.com'') None)\<rparr> =
      lit ''https''"
    by (simp add: dst_scheme_def sample_api_def sample_dst_def)
  have "(\<exists>e. (Ok () :: string + unit) = Err e \<and> sample_main = ([], MainPanicked (unwrap_failed e))) \<or>
    (\<exists>e s'. connect_run sample_stack (default_https ())
        \<lparr>dst_uri = dst_uri (sample_dst (lit ''https'') (lit ''www.vrbo.com'') None)\<rparr>
        (concat (replicate 3 sample_polls)) ([Ok (Ready 5)], sample_ares) = Ret (Err e, s') \<and>
      sample_main = ([], MainPanicked (unwrap_failed ((\<lambda>e. ''e'') (e :: io_error))))) \<or>
    (\<exists>line. sample_main = (lit ''code '' @ lit ''200 OK'' @ [LF] @ line @ [LF], MainDone) \<and>
      line = str_debug (\<lambda>c. lit ''?'') (from_utf8_lossy (lit ''hey'')) \<and> LF \<notin> set line)"
    unfolding sample_main_def
    by (rule example_prints_page[OF refl https sample_ares_facts sample_stack_patient pat sample_head_facts(1,2) cap])
      (simp, simp, rule ann, rule serves, simp add: lit_def)
  moreover have "lit ''code '' @ lit ''200 OK'' = lit ''code 200 OK''" by (simp add: lit_def)
  ultimately show ?thesis by (metis append.assoc sample_debug sample_page_connects is_connected_Err sum.distinct(1))
qed

end
