(* ===== verification/Spec2Isabelle.thy ===== *)
theory Spec2Isabelle
  imports Exchange Proxied_Exchange Gai_Connector Text_Output Example_Program
begin

text \<open>
  A model of the crate \<open>simple-http\<close> (\<open>src/src\<close>), an asynchronous HTTP/1.0 client, and the
  theorems that make it correct.

  \<^bold>\<open>The program.\<close> A \<open>Client\<close> (\<open>lib.rs\<close>) connects to the destination of a request through a
  connector, sends a head and a body, reads the response head into a buffer of 4096 bytes
  with the parser of \<open>httparse.rs\<close>, and returns a \<open>Response\<close> (\<open>response.rs\<close>) whose \<open>Body\<close>
  (\<open>body.rs\<close>) streams the rest of the connection. Requests are made directly or with a builder
  (\<open>request.rs\<close>). A connector turns a \<open>Destination\<close> (\<open>connect.rs\<close>) into a stream: the TCP
  connector (\<open>http/mod.rs\<close>) resolves the host with a resolver (\<open>http/dns.rs\<close>,
  \<open>http/ares.rs\<close>) and races two address families; the TLS connector (\<open>https/client.rs\<close>) puts a
  handshake on top of another connector; the proxy connector (\<open>proxy/mod.rs\<close>) rewrites the
  destination and, for \<open>https\<close>, opens a CONNECT tunnel (\<open>proxy/tunnel.rs\<close>). Their streams
  are wrappers (\<open>https/stream.rs\<close>, \<open>proxy/stream.rs\<close>). \<open>src/examples/simple.rs\<close> is a program that
  fetches a page with this client.

  \<^bold>\<open>The theories.\<close>
  \<^item> \<open>Http_Prelude\<close>: bytes, \<open>u16\<close>, \<open>usize\<close> with its 64-bit limit; panics as values
    (\<open>outcome\<close>); errors and poll answers; slices, searching and splitting. \<open>Rust_Std\<close>: the
    text functions of the standard library (\<open>from_utf8_lossy\<close>, \<open>to_lowercase\<close> with the
    Unicode table as an argument, \<open>parse::<usize>\<close>, decimal output).
  \<^item> \<open>Futures\<close>: the contract between a poll-based future and its executor, as the locales
    \<open>live_future\<close>, \<open>one_shot_future\<close>, \<open>progressing_future\<close> and \<open>patient_future\<close>; \<open>run_polls\<close> is the
    executor. \<open>Combinators\<close>: \<open>map\<close>, \<open>map_err\<close>, \<open>and_then\<close> and \<open>future::err\<close> as poll
    functions; a chain runs its parts one after the other, and the contracts carry over from
    the parts (\<open>mapped_future\<close>, \<open>chained_future\<close>). \<open>settles\<close> says that a future comes to an
    answer within the patience of its world; a map or a chain of settling futures settles.
  \<^item> \<open>Httparse\<close>: trimming, header and status lines, the iterator. Shown: the round trip of a
    rendered head, the range of status codes, the exact panics.
  \<^item> \<open>Body_Stream\<close>: the transport and the body. Shown: an invariant kept by every poll,
    complete delivery, the content-length bound, termination, the effect of errors and of a
    server that sends too much.
  \<^item> \<open>Response\<close> (the header map as an instance of the locale \<open>multimap\<close>) and \<open>Request\<close>.
  \<^item> \<open>Destination\<close>: the updates of a destination as transactions. \<open>Connect_Trait\<close>: the trait
    \<open>Connect\<close> as the record \<open>connect_api\<close>, and what a client may rely on as locales: the future
    does not panic (\<open>live_connector\<close>), comes to an answer (\<open>settling_connector\<close>), and serves only
    destinations with a host (\<open>serving_connector\<close>). Each connector below is a function from
    the record of the connector under it to its own record (\<open>http_api\<close>, \<open>https_api\<close>,
    \<open>proxy_api\<close>), and passes each promise on.
  \<^item> \<open>Client\<close>: \<open>build_req\<close> against a reference head, the receive loop, the whole request.
  \<^item> \<open>Dns\<close>: address lists and the \<open>getaddrinfo\<close> resolvers with their executor and tasks; the
    iterators are instances of the locale \<open>address_iterator\<close>; \<open>Ares\<close>: the caching resolver, a
    one-shot future.
  \<^item> \<open>Connecting_Tcp\<close>: one socket, one list of addresses, the race of two lists. Shown: which
    address wins, when there is an error, when there is a panic, which addresses are on which
    side, and progress on a network that is pending only finitely often (\<open>net_patient\<close>).
    \<open>Http_Connector\<close>: the checks of \<open>connect\<close> and the states of the future; the locale
    \<open>connector_env\<close> is what the future needs of the network and the resolver, the default resolver
    is an instance, and by a \<open>sublocale\<close> the future then meets the contract of \<open>live_future\<close>.
  \<^item> \<open>Http_States\<close>: the loop of the future as a step relation, over which facts about polls are
    proved by rule induction; the phases of a connection attempt, which every run refines; the locale
    \<open>patient_connector\<close>, which gives progress. \<open>Gai_Connector\<close>: the connector over the other
    resolver, a second instance.
  \<^item> \<open>Streams\<close>: the stream wrappers, each constructor an instance of \<open>stream_embedding\<close>.
  \<^item> \<open>Https_Connector\<close>: the handshake, a one-shot future, the decision about TLS, and the boxed
    future with its polls. Shown: the run refines the sequential program \<open>https_session\<close>; the
    future keeps the promises over every transport that does (\<open>https_transport\<close>,
    \<open>https_settling\<close>, \<open>https_serving\<close>), and the HTTP connector is an instance.
  \<^item> \<open>Tunnel\<close>: the CONNECT head and the tunnel future, an instance of \<open>live_future\<close>. Shown: when
    it completes, that the schedule of its polls does not matter, and that a proxy which keeps
    answering brings it to its end. \<open>Proxy\<close>: intercepts, the choice of a proxy and the
    rewritten destination. \<open>Proxy_Connector\<close>: the boxed future with its nested chains; the locales
    \<open>proxy_transport\<close>, \<open>proxy_settling\<close> and \<open>proxy_serving\<close> pass the promises on, and the TLS
    connector on the HTTP connector is an instance.
  \<^item> \<open>Exchange\<close>: a request of the client over a connector. The locales \<open>safe_client\<close> and
    \<open>settling_client\<close> hold what follows from the promises alone; the stack of TLS connector, HTTP
    connector and default resolver is an instance. \<open>Proxied_Exchange\<close>: the stack with the proxy
    connector on top is another.
  \<^item> \<open>Text_Output\<close>: the \<open>Debug\<close> and \<open>Display\<close> implementations over a model of formatters.
  \<^item> \<open>Example_Program\<close>: the program of \<open>src/examples/simple.rs\<close> with its output.
  \<^item> This theory: the whole exchange of a request and its response on a connection.

  \<^bold>\<open>Conventions.\<close> A Rust struct is a record and an enum a datatype with its constructors; a
  method that changes \<open>self\<close> returns the new record. A \<open>Result\<close> is a sum (\<open>Ok\<close> on the
  right), and every panic (\<open>unwrap\<close>, \<open>expect\<close>, slice bounds, overflow) is a value \<open>Panic\<close>.
  The flag \<open>oc\<close> stands for the overflow checks of the build profile; theorems hold for both
  values. An \<open>await\<close> that never completes makes the answer \<open>NotReady\<close>.

  \<^bold>\<open>The outside.\<close> The crates the program calls are arguments: the URI type (\<open>uri_api\<close>, with
  its documented behaviour in \<open>uri_api_ok\<close>), sockets and timers (\<open>net_api\<close>), resolvers
  (\<open>resolver_api\<close>), header maps (\<open>hdr_api\<close>), connection metadata (\<open>connected_api\<close>),
  \<open>native_tls\<close> (\<open>tls_api\<close>), \<open>tokio_tls\<close> (\<open>tokio_tls_api\<close>), \<open>StatusCode::from_u16\<close>, the clock,
  the opening of the c-ares channel and c-ares itself. The combinators of the \<open>futures\<close> crate and
  \<open>oneshot::spawn\<close> are defined by their documentation, the combinators up to their completion.
  \<open>ares_inv\<close> is not documented behaviour but a hypothesis about c-ares: that it never answers with
  an empty list. Without it connecting can panic, which is shown as well; the theorems that
  need it say so.
  A connection is a script of what its environment will answer: every finite sequence of
  reads in any pieces, ends, errors and pending calls is such a script. The instances named \<open>sample_...\<close> show
  that the hypotheses on these arguments can be met.

  \<^bold>\<open>Bounds.\<close> The only fuel is in the body's consumer \<open>read_body\<close>, one unit per poll; the
  amount that suffices, \<open>body_work\<close>, counts the bytes and events left in the connection, and
  the delivery theorems hold for every larger amount. All other loops of the program are total
  functions: the receive loop by the room left in its buffer, the header loops by the input
  left, the address loop by the addresses left, the connecting future by the rank of its
  state, the tunnel by the answers left in its script. The theorems on bodies assume that fewer
  than \<open>2^64 - 4096\<close> bytes arrive.

  \<^bold>\<open>Patience.\<close> A future can be pending for ever when its environment never answers. The theorems
  on completion assume a natural number, the patience of the world, that no operation raises
  and that every pending answer of the network, the resolver or the TLS library lowers; a
  number of polls above it is enough. Nothing is assumed about the timer of the race. A proxy is
  assumed to decide about a tunnel (\<open>peer_decides\<close>): one that never does keeps it reading.

  \<^bold>\<open>Not modelled.\<close> The insides of thread pools and channels, reference counting, the memory content
  of uninitialised buffers (an argument), wake-ups, and module declarations. Concurrent use of
  the shared resolver cache is modelled as a sequence of calls, which its mutex enforces. The
  traffic on a stream after \<open>connect\<close> is a script (\<open>wire\<close>), not the work of the TLS library.
\<close>

section \<open>The whole exchange\<close>

text \<open>
  (C2) A request is carried out from end to end: when the connection is made, every write is
  accepted and the server answers with a well-formed head of at most 4096 bytes and a body up to
  the end of the connection that an announced content length covers, then
  the bytes sent are exactly the reference request head and the body's pieces in their order;
  the response carries the status and the headers of the answer, and reading its body, with a
  number of polls bounded by what arrives, gives exactly the body, in whatever pieces the
  answer arrives.
\<close>

theorem request_end_to_end:
  assumes "connect \<lparr>dst_uri = rq_uri req\<rparr> = Ok (Ready c)"
    and "uri_host A (rq_uri req) = Some host"
    and "rq_body req = map_option (map Ok) vs"
    and "answers c = replicate (Suc (length (body_pieces vs))) (Ok ())"
    and "wf_status version code reason" and "list_all wf_field hs"
    and "length (render_head version code reason hs) \<le> head_capacity"
    and "until_eof (arrivals c) = Some (render_head version code reason hs @ data)"
    and "from_u16 (of_nat code) = Some sc" and "length uninit = 4096"
    and "arrival_bytes (arrivals c) < usize_size - 4096"
    and "announced_enough (find_content_length (stored_fields uni hs)) data"
  shows "\<exists>resp c'. request oc A uni as_str from_u16 uninit connect req = Ret (Ok (Ready resp), Some c') \<and>
    sent c' = sent c @
      request_head A uni (as_str (rq_method req)) host (rq_uri req) (rq_headers req) @
      concat (body_pieces vs) \<and>
    response_status resp = sc \<and>
    (\<forall>name. header_map_get (response_headers resp) name = map_of (stored_fields uni hs) name) \<and>
    (\<forall>fuel. arrival_work (arrivals c) + 2 < fuel \<longrightarrow>
       (\<exists>b'. read_body oc fuel (into_body resp) = Some (Ret (data, Eof, b'))))"
  by (rule request_delivers[where connect=connect and req=req and ?from_u16.0=from_u16, OF assms])

theorem request_end_to_end_witness:
  "\<exists>resp c' b'. request True sample_api id id (Some :: u16 \<Rightarrow> u16 option) (replicate 4096 0)
      (\<lambda>d. Ok (Ready sample_exchange)) sample_request = Ret (Ok (Ready resp), Some c') \<and>
    response_status resp = 200 \<and> read_body True 99 (into_body resp) = Some (Ret (lit ''hey'', Eof, b'))"
proof -
  have "length sample_response_head \<le> head_capacity"
    using sample_head_facts(3) by (simp add: head_capacity_def)
  moreover have "arrival_bytes (arrivals sample_exchange) = 52" "arrival_work (arrivals sample_exchange) = 56"
    using sample_head_facts(3) by (simp_all add: sample_exchange_def)
  moreover have "announced_enough (find_content_length (stored_fields id sample_fields)) (lit ''hey'')"
    by (simp add: sample_content_length announced_enough_def)
  ultimately show ?thesis
    using request_end_to_end[of "\<lambda>d. Ok (Ready sample_exchange)" sample_request sample_exchange sample_api
        "lit ''a.b''" "Some [lit ''q'']" "lit ''1.1''" 200 "lit ''OK''" sample_fields "lit ''hey''"
        "Some :: u16 \<Rightarrow> u16 option" 200 "replicate 4096 0" id True id]
      sample_head_facts(1,2) sample_until_eof[unfolded sample_response_head_def]
    unfolding sample_response_head_def
    by (auto simp: sample_request_def sample_api_def sample_dst_def body_pieces_def sample_exchange_def
        usize_size_def)
qed

end
